theory Spec2Isabelle
  imports Complex_Main "HOL-Library.Log_Nat"
begin

section \<open>JavaScript strings and numbers\<close>

text \<open>
  A JavaScript string is modelled as a \<^typ>\<open>string\<close>: a list of code units, each read as
  the code point of the same number (U+0000 to U+00FF). Numbers that hold page numbers,
  indices and angles are modelled as mathematical integers, NaN as \<open>None\<close>. Lengths in
  points and millimetres are doubles: a double is modelled as the real number it holds,
  and every arithmetic operation on lengths rounds its exact result to the nearest
  double, as IEEE 754 binary64 arithmetic does.
\<close>

text \<open>
  The white space of \<open>String.prototype.trim\<close>, of \<open>parseInt\<close> and of the regular
  expression class \<open>\s\<close> (WhiteSpace and LineTerminator of ECMAScript), as far as it
  lies below U+0100: TAB, LF, VT, FF, CR, SP and NBSP.
\<close>

definition isWhiteSpace :: "char \<Rightarrow> bool" where
  "isWhiteSpace c \<longleftrightarrow>
     c = CHR 0x09 \<or> c = CHR 0x0A \<or> c = CHR 0x0B \<or> c = CHR 0x0C \<or> c = CHR 0x0D
     \<or> c = CHR 0x20 \<or> c = CHR 0xA0"

text \<open>\<open>String.prototype.trim\<close>.\<close>

definition trim :: "string \<Rightarrow> string" where
  "trim s = rev (dropWhile isWhiteSpace (rev (dropWhile isWhiteSpace s)))"

text \<open>
  \<open>String.prototype.split\<close> with a separator of one character (\<open>split(',')\<close>,
  \<open>split('-')\<close>, and \<open>split(/\n/)\<close>, whose pattern matches exactly one character):
  \<open>cur\<close> holds the characters read since the last separator. The empty string splits
  into one empty piece.
\<close>

fun splitOn :: "char \<Rightarrow> string \<Rightarrow> string \<Rightarrow> string list" where
  "splitOn d cur [] = [cur]"
| "splitOn d cur (c # cs) =
     (if c = d then cur # splitOn d [] cs else splitOn d (cur @ [c]) cs)"

definition split :: "char \<Rightarrow> string \<Rightarrow> string list" where
  "split d s = splitOn d [] s"

text \<open>\<open>Array.prototype.join\<close> of an array of strings, with a separator of one character.\<close>

fun join :: "char \<Rightarrow> string list \<Rightarrow> string" where
  "join d [] = []"
| "join d [s] = s"
| "join d (s # t # ts) = s @ d # join d (t # ts)"

text \<open>
  \<open>parseInt(string, radix)\<close> after ECMAScript: leading white space is skipped, one sign is
  read, the prefix \<open>0x\<close> selects radix 16 when the radix allows it, and the longest
  prefix of digits of the radix is the value; NaN (\<open>None\<close>) when that prefix is empty.
  The radix \<open>0\<close> stands for an omitted radix.
\<close>

definition digitValue :: "char \<Rightarrow> nat" where
  "digitValue c =
     (let n = of_char c :: nat in
      if 48 \<le> n \<and> n \<le> 57 then n - 48
      else if 97 \<le> n \<and> n \<le> 122 then n - 87
      else if 65 \<le> n \<and> n \<le> 90 then n - 55
      else 36)"

definition isRadixDigit :: "nat \<Rightarrow> char \<Rightarrow> bool" where
  "isRadixDigit R c \<longleftrightarrow> digitValue c < R"

definition digitsValue :: "nat \<Rightarrow> string \<Rightarrow> nat" where
  "digitsValue R Z = foldl (\<lambda>v c. v * R + digitValue c) 0 Z"

definition parseInt :: "string \<Rightarrow> nat \<Rightarrow> int option" where
  "parseInt string radix =
     (let S = dropWhile isWhiteSpace string;
          sign = (if take 1 S = ''-'' then - 1 else 1 :: int);
          S = (if take 1 S = ''-'' \<or> take 1 S = ''+'' then drop 1 S else S);
          stripPrefix = (radix = 0 \<or> radix = 16);
          R = (if radix = 0 then 10 else radix)
      in if R < 2 \<or> 36 < R then None
         else
           let hex = (stripPrefix \<and> (take 2 S = ''0x'' \<or> take 2 S = ''0X''));
               S = (if hex then drop 2 S else S);
               R = (if hex then 16 else R);
               Z = takeWhile (isRadixDigit R) S
           in if Z = [] then None else Some (sign * int (digitsValue R Z)))"

text \<open>
  The decimal text of an integer, as a template literal \<open>`${n}`\<close> prints a number that
  holds an integer (below \<open>10^21\<close> in magnitude).
\<close>

fun digits :: "nat \<Rightarrow> string" where
  "digits n = (if n < 10 then [char_of (48 + n)] else digits (n div 10) @ [char_of (48 + n mod 10)])"

declare digits.simps [simp del]

definition toString :: "int \<Rightarrow> string" where
  "toString i = (if i < 0 then CHR ''-'' # digits (nat (- i)) else digits (nat i))"

subsection \<open>Double arithmetic\<close>

text \<open>
  The binary exponent of a real number other than 0: the integer \<open>e\<close> with
  \<open>2^e \<le> |v| < 2^(e + 1)\<close>, computed from the bit length of the integer part, or of
  the reciprocal when \<open>|v| < 1\<close>.
\<close>

definition exponent :: "real \<Rightarrow> int" where
  "exponent v =
     (if 1 \<le> \<bar>v\<bar> then bitlen \<lfloor>\<bar>v\<bar>\<rfloor> - 1 else - bitlen (\<lceil>1 / \<bar>v\<bar>\<rceil> - 1))"

text \<open>Rounding to the nearest integer, a tie going to the even one.\<close>

definition roundTiesToEven :: "real \<Rightarrow> int" where
  "roundTiesToEven v =
     (let f = \<lfloor>v\<rfloor> in
      if v - of_int f < 1 / 2 then f
      else if 1 / 2 < v - of_int f then f + 1
      else if even f then f else f + 1)"

text \<open>
  The double nearest to a real number (round to nearest, ties to even): a double is an
  integer multiple of \<open>2^(e - 52)\<close>, where \<open>e\<close> is its exponent, at least \<open>-1022\<close>
  (below that the doubles are subnormal, all multiples of \<open>2^(-1074)\<close>). This is the
  value of a decimal literal and of the result of an operation. Results of a magnitude
  of \<open>2^1024\<close> or more, which are infinite in JavaScript, and the sign of a zero are
  not modelled; no length of a page comes near.
\<close>

definition double :: "real \<Rightarrow> real" where
  "double v =
     (if v = 0 then 0
      else let ulp = 2 powi (max (exponent v) (- 1022) - 52)
           in of_int (roundTiesToEven (v / ulp)) * ulp)"

text \<open>The operators \<open>*\<close> and \<open>-\<close> of JavaScript on doubles.\<close>

definition fmul :: "real \<Rightarrow> real \<Rightarrow> real" where
  "fmul a b = double (a * b)"

definition fsub :: "real \<Rightarrow> real \<Rightarrow> real" where
  "fsub a b = double (a - b)"

section \<open>Documents, pages and errors\<close>

text \<open>
  A page of a decoded document, as far as the operations read and write it through
  pdf-lib: the media box \<open>(x, y, width, height)\<close> that \<open>getSize\<close> and \<open>setMediaBox\<close>
  use (doubles), the \<open>Rotate\<close> entry that \<open>setRotation\<close> writes, and the content, a
  list of content items that no operation modelled here changes; a blank page has none.
  A document is the list of its pages in order.
\<close>

record box =
  box_x :: real
  box_y :: real
  box_width :: real
  box_height :: real

record 'c page =
  mediaBox :: box
  rotation :: int
  content :: "'c list"

type_synonym 'c document = "'c page list"

text \<open>
  What an operation throws. \<open>PdfLibNotMultipleOf90\<close> is the assertion of pdf-lib's
  \<open>setRotation\<close>, \<open>PdfLibNoSuchPage\<close> the failure of \<open>copyPages\<close> on an index that is
  no page, \<open>NoTablesDetected\<close> is \<open>new Error('No tables detected.')\<close>, and
  \<open>Failed prefix e\<close> is \<open>new Error(prefix + e.message)\<close> of the \<open>catch\<close> blocks.
\<close>

datatype error =
    PdfLibNotMultipleOf90
  | PdfLibNoSuchPage
  | NoTablesDetected
  | Failed string error

text \<open>\<open>getPageIndices\<close> and \<open>copyPages\<close> of pdf-lib.\<close>

definition getPageIndices :: "'c document \<Rightarrow> int list" where
  "getPageIndices pdf = map int [0 ..< length pdf]"

definition copyPages :: "'c document \<Rightarrow> int list \<Rightarrow> error + 'c page list" where
  "copyPages srcDoc indices =
     (if list_all (\<lambda>i. 0 \<le> i \<and> i < int (length srcDoc)) indices
      then Inr (map (\<lambda>i. srcDoc ! nat i) indices)
      else Inl PdfLibNoSuchPage)"

text \<open>
  \<open>save\<close> of pdf-lib, as far as it changes the pages: a document without pages gets
  one blank page of the default size (A4, 595.28 by 841.89 points) and no rotation
  before it is written. The bytes written are given as the document they decode to.
\<close>

definition defaultPage :: "'c page" where
  "defaultPage =
     \<lparr>mediaBox = \<lparr>box_x = 0, box_y = 0, box_width = double 595.28, box_height = double 841.89\<rparr>,
      rotation = 0, content = []\<rparr>"

definition save :: "'c document \<Rightarrow> 'c document" where
  "save pdfDoc = (if length pdfDoc = 0 then [defaultPage] else pdfDoc)"

section \<open>Merging\<close>

text \<open>
  \<open>mergePdfs\<close>: every file, in the order given, has all its pages copied and added to
  the merged document, which is then saved. A file is given as the document it decodes
  to.
\<close>

fun mergeLoop :: "'c document \<Rightarrow> 'c document list \<Rightarrow> error + 'c document" where
  "mergeLoop mergedPdf [] = Inr mergedPdf"
| "mergeLoop mergedPdf (pdf # files) =
     (case copyPages pdf (getPageIndices pdf) of
        Inl e \<Rightarrow> Inl e
      | Inr pages \<Rightarrow> mergeLoop (mergedPdf @ pages) files)"

definition mergePdfs :: "'c document list \<Rightarrow> error + 'c document" where
  "mergePdfs files =
     (case mergeLoop [] files of
        Inl e \<Rightarrow> Inl (Failed ''Failed to merge PDFs: '' e)
      | Inr mergedPdf \<Rightarrow> Inr (save mergedPdf))"

section \<open>Rotating\<close>

text \<open>
  pdf-lib's \<open>setRotation\<close> accepts multiples of 90 only and stores the angle as it is.
\<close>

definition setRotation :: "int option \<Rightarrow> 'c page \<Rightarrow> error + 'c page" where
  "setRotation angle page =
     (case angle of
        None \<Rightarrow> Inl PdfLibNotMultipleOf90
      | Some d \<Rightarrow> if d mod 90 = 0 then Inr (page\<lparr>rotation := d\<rparr>) else Inl PdfLibNotMultipleOf90)"

text \<open>\<open>pages.forEach\<close> with a callback that may throw: the first failure ends the loop.\<close>

fun forEach :: "('a \<Rightarrow> error + 'a) \<Rightarrow> 'a list \<Rightarrow> error + 'a list" where
  "forEach f [] = Inr []"
| "forEach f (p # ps) =
     (case f p of
        Inl e \<Rightarrow> Inl e
      | Inr p' \<Rightarrow> (case forEach f ps of Inl e \<Rightarrow> Inl e | Inr ps' \<Rightarrow> Inr (p' # ps')))"

definition rotatePdf :: "'c document \<Rightarrow> string \<Rightarrow> error + 'c document" where
  "rotatePdf file angle =
     (let angleValue = parseInt angle 0 in
      case forEach (setRotation angleValue) file of
        Inl e \<Rightarrow> Inl (Failed ''Failed to rotate PDF: '' e)
      | Inr pages \<Rightarrow> Inr (save pages))"

section \<open>Cropping\<close>

text \<open>
  The margins \<open>top\<close>, \<open>right\<close>, \<open>bottom\<close> and \<open>left\<close>, in millimetres (finite
  doubles), and \<open>allPages\<close>.
\<close>

record cropOptions =
  top_mm :: real
  right_mm :: real
  bottom_mm :: real
  left_mm :: real
  allPages :: bool

definition setMediaBox :: "'c page \<Rightarrow> real \<Rightarrow> real \<Rightarrow> real \<Rightarrow> real \<Rightarrow> 'c page" where
  "setMediaBox page bx by bw bh =
     page\<lparr>mediaBox := \<lparr>box_x = bx, box_y = by, box_width = bw, box_height = bh\<rparr>\<rparr>"

text \<open>
  The body of the loop of \<open>cropPdf\<close> for one page; \<open>mm\<close> is the double of the literal
  \<open>2.83465\<close>.
\<close>

definition cropPage :: "cropOptions \<Rightarrow> 'c page \<Rightarrow> 'c page" where
  "cropPage opts page =
     (let w = box_width (mediaBox page);
          h = box_height (mediaBox page);
          mm = double 2.83465;
          cropLeft = fmul (left_mm opts) mm;
          cropBottom = fmul (bottom_mm opts) mm;
          cropRight = fsub w (fmul (right_mm opts) mm);
          cropTop = fsub h (fmul (top_mm opts) mm)
      in setMediaBox page cropLeft cropBottom (fsub cropRight cropLeft) (fsub cropTop cropBottom))"

text \<open>
  The loop over the pages from index \<open>i\<close> on; it is left at the first index above 0 when
  \<open>allPages\<close> is false.
\<close>

fun cropLoop :: "cropOptions \<Rightarrow> nat \<Rightarrow> 'c page list \<Rightarrow> 'c page list" where
  "cropLoop opts i [] = []"
| "cropLoop opts i (page # pages) =
     (if \<not> allPages opts \<and> 0 < i then page # pages
      else cropPage opts page # cropLoop opts (Suc i) pages)"

definition cropPdf :: "'c document \<Rightarrow> cropOptions \<Rightarrow> error + 'c document" where
  "cropPdf file opts = Inr (save (cropLoop opts 0 file))"

section \<open>Page ranges\<close>

text \<open>A range \<open>{ start, end }\<close> of 1-based page numbers.\<close>

record range =
  start :: int
  end' :: int

text \<open>
  The body of the loop of \<open>_parseRanges\<close> for one comma-separated part: \<open>ranges\<close> is
  the array built so far. A comparison with NaN or \<open>undefined\<close> is false, so a part whose
  numbers do not parse pushes nothing.
\<close>

definition parsePart :: "int \<Rightarrow> range list \<Rightarrow> string \<Rightarrow> range list" where
  "parsePart maxPages ranges part =
     (let trimmed = trim part in
      if CHR ''-'' \<in> set trimmed then
        (case map (\<lambda>n. parseInt (trim n) 0) (split CHR ''-'' trimmed) of
           Some startN # Some endN # _ \<Rightarrow>
             if 1 \<le> startN \<and> endN \<le> maxPages \<and> startN \<le> endN
             then ranges @ [\<lparr>start = startN, end' = endN\<rparr>] else ranges
         | _ \<Rightarrow> ranges)
      else
        (case parseInt trimmed 0 of
           Some pageN \<Rightarrow>
             if 1 \<le> pageN \<and> pageN \<le> maxPages
             then ranges @ [\<lparr>start = pageN, end' = pageN\<rparr>] else ranges
         | None \<Rightarrow> ranges))"

text \<open>
  \<open>_parseRanges\<close>. No statement of its body throws on a string: the outcome is always a
  returned array.
\<close>

definition parseRanges :: "string \<Rightarrow> int \<Rightarrow> error + range list" where
  "parseRanges rangesString maxPages =
     Inr (foldl (parsePart maxPages) [] (split CHR '','' rangesString))"

section \<open>Splitting\<close>

text \<open>One output of a split: the pages of the new document as saved, and its file name.\<close>

record 'c splitPdf =
  blob :: "'c document"
  name :: string

text \<open>The loop of the method \<open>each\<close> over the page indices.\<close>

fun eachLoop :: "'c document \<Rightarrow> int list \<Rightarrow> 'c splitPdf list \<Rightarrow> error + 'c splitPdf list" where
  "eachLoop pdfDoc [] splitPdfs = Inr splitPdfs"
| "eachLoop pdfDoc (i # is) splitPdfs =
     (case copyPages pdfDoc [i] of
        Inl e \<Rightarrow> Inl e
      | Inr pages \<Rightarrow>
          eachLoop pdfDoc is
            (splitPdfs @ [\<lparr>blob = save (take 1 pages), name = ''page_'' @ toString (i + 1) @ ''.pdf''\<rparr>]))"

text \<open>\<open>Math.max(1, parseInt(ranges || '5', 10) || 5)\<close>; \<open>None\<close> is \<open>null\<close>.\<close>

definition pagesPerChunk :: "string option \<Rightarrow> int" where
  "pagesPerChunk ranges =
     max 1 (case parseInt (case ranges of None \<Rightarrow> ''5'' | Some r \<Rightarrow> if r = [] then ''5'' else r) 10 of
              None \<Rightarrow> 5
            | Some v \<Rightarrow> if v = 0 then 5 else v)"

text \<open>
  The loop of the method \<open>pages\<close>: \<open>i\<close> advances by the chunk size. As a function of
  any step it need not end, so it returns an option: \<open>None\<close> is a loop that runs forever.
\<close>

partial_function (option) chunkLoop ::
  "'c document \<Rightarrow> int \<Rightarrow> int \<Rightarrow> 'c splitPdf list \<Rightarrow> (error + 'c splitPdf list) option" where
  "chunkLoop pdfDoc perChunk i splitPdfs =
     (if i < int (length pdfDoc) then
        (let endPage = min (i + perChunk) (int (length pdfDoc));
             pageIndices = [i .. endPage - 1]
         in case copyPages pdfDoc pageIndices of
              Inl e \<Rightarrow> Some (Inl e)
            | Inr pages \<Rightarrow>
                chunkLoop pdfDoc perChunk (i + perChunk)
                  (splitPdfs @ [\<lparr>blob = save pages,
                      name = ''pages_'' @ toString (i + 1) @ ''-'' @ toString endPage @ ''.pdf''\<rparr>]))
      else Some (Inr splitPdfs))"

text \<open>
  The arrays \<open>pageIndices\<close> that the loop of the method \<open>pages\<close> builds, one for every
  pass of the loop from index \<open>i\<close> on, for a positive chunk size.
\<close>

function chunkGroups :: "int \<Rightarrow> int \<Rightarrow> int \<Rightarrow> int list list" where
  "chunkGroups perChunk i pageCount =
     (if i < pageCount \<and> 0 < perChunk
      then [i .. min (i + perChunk) pageCount - 1] # chunkGroups perChunk (i + perChunk) pageCount
      else [])"
  by pat_completeness auto
termination
  by (relation "measure (\<lambda>(perChunk, i, pageCount). nat (pageCount - i))") auto

declare chunkGroups.simps [simp del]

text \<open>The loop of the method \<open>range\<close> over the parsed ranges.\<close>

fun rangeLoop :: "'c document \<Rightarrow> range list \<Rightarrow> 'c splitPdf list \<Rightarrow> error + 'c splitPdf list" where
  "rangeLoop pdfDoc [] splitPdfs = Inr splitPdfs"
| "rangeLoop pdfDoc (r # rangeList) splitPdfs =
     (let pageIndices = [start r - 1 .. end' r - 1]
      in case copyPages pdfDoc pageIndices of
           Inl e \<Rightarrow> Inl e
         | Inr pages \<Rightarrow>
             rangeLoop pdfDoc rangeList
               (splitPdfs @ [\<lparr>blob = save pages,
                   name = ''pages_'' @ toString (start r) @ ''-'' @ toString (end' r) @ ''.pdf''\<rparr>]))"

text \<open>
  \<open>_splitWithPDFLib\<close> on the decoded document. \<open>ranges\<close> is \<open>null\<close> (\<open>None\<close>) or a
  string; the method \<open>range\<close> is taken only when \<open>ranges\<close> is truthy, that is a string
  that is not empty. Any other case returns the empty array.
\<close>

definition splitWithPDFLib ::
  "'c document \<Rightarrow> string \<Rightarrow> string option \<Rightarrow> (error + 'c splitPdf list) option" where
  "splitWithPDFLib pdfDoc method ranges =
     (let pageCount = int (length pdfDoc) in
      if method = ''each'' then Some (eachLoop pdfDoc (map int [0 ..< length pdfDoc]) [])
      else if method = ''pages'' then chunkLoop pdfDoc (pagesPerChunk ranges) 0 []
      else if method = ''range'' \<and> ranges \<noteq> None \<and> ranges \<noteq> Some [] then
        (case parseRanges (the ranges) pageCount of
           Inl e \<Rightarrow> Some (Inl e)
         | Inr rangeList \<Rightarrow> Some (rangeLoop pdfDoc rangeList []))
      else Some (Inr []))"

section \<open>Table extraction\<close>

text \<open>
  The length of the match of \<open>/\s{2,}|\t/\<close> at the start of a string, 0 when there is
  none: the first alternative takes the whole run of white space when it has at least
  two characters; otherwise the second takes one tab.
\<close>

definition matchSeparator :: "string \<Rightarrow> nat" where
  "matchSeparator s =
     (let n = length (takeWhile isWhiteSpace s) in
      if 2 \<le> n then n else if take 1 s = [CHR 0x09] then 1 else 0)"

text \<open>
  \<open>line.split(/\s{2,}|\t/)\<close>: the string is scanned from the left; where the pattern
  matches, the characters read since the last match (\<open>cur\<close>) are pushed and the scan
  goes on behind the match; the rest is pushed at the end.
\<close>

function splitCells :: "string \<Rightarrow> string \<Rightarrow> string list" where
  "splitCells cur [] = [cur]"
| "splitCells cur (c # cs) =
     (if matchSeparator (c # cs) = 0 then splitCells (cur @ [c]) cs
      else cur # splitCells [] (drop (matchSeparator (c # cs)) (c # cs)))"
  by pat_completeness auto
termination
  by (relation "measure (\<lambda>(cur, s). length s)") auto

text \<open>\<open>line.split(/\s{2,}|\t/).map(cell => cell.trim()).filter(cell => cell)\<close>.\<close>

definition rowOfLine :: "string \<Rightarrow> string list" where
  "rowOfLine line = filter (\<lambda>cell. cell \<noteq> []) (map trim (splitCells [] line))"

text \<open>The loop over the lines of one page, and the loop over the pages.\<close>

definition lineLoop :: "string list list \<Rightarrow> string list \<Rightarrow> string list list" where
  "lineLoop allRows lines =
     foldl (\<lambda>rows line. let row = rowOfLine line in if 1 < length row then rows @ [row] else rows)
       allRows lines"

definition pageLoop :: "string list list \<Rightarrow> string list list \<Rightarrow> string list list" where
  "pageLoop allRows pagesText =
     foldl (\<lambda>rows items. lineLoop rows (split CHR 0x0A (join CHR 0x0A items))) allRows pagesText"

text \<open>
  \<open>extractTableFromPdf\<close>, on the text items (\<open>item.str\<close>) of every page, up to the rows
  handed to the spreadsheet writer. The error thrown inside the \<open>try\<close> block is caught
  and thrown again with the prefix of the operation.
\<close>

definition extractTableFromPdf :: "string list list \<Rightarrow> error + string list list" where
  "extractTableFromPdf pagesText =
     (let allRows = pageLoop [] pagesText in
      if length allRows = 0 then Inl (Failed ''Table extraction failed: '' NoTablesDetected)
      else Inr allRows)"

subsection \<open>The extraction as the specification words it\<close>

text \<open>
  The maximal runs of a line: each run is white space only or free of white space.
\<close>

fun spec_runs :: "string \<Rightarrow> string list" where
  "spec_runs [] = []"
| "spec_runs (c # cs) =
     (case spec_runs cs of
        [] \<Rightarrow> [[c]]
      | r # rs \<Rightarrow> if isWhiteSpace (hd r) = isWhiteSpace c then (c # r) # rs else [c] # r # rs)"

text \<open>A separator is a run of at least two white space characters, or a tab.\<close>

definition spec_isSeparator :: "string \<Rightarrow> bool" where
  "spec_isSeparator r \<longleftrightarrow> (list_all isWhiteSpace r \<and> 2 \<le> length r) \<or> r = [CHR 0x09]"

text \<open>The cells of a line: what stands between the separators.\<close>

fun spec_cells :: "string \<Rightarrow> string list \<Rightarrow> string list" where
  "spec_cells cur [] = [cur]"
| "spec_cells cur (r # rs) =
     (if spec_isSeparator r then cur # spec_cells [] rs else spec_cells (cur @ r) rs)"

text \<open>Cells trimmed, empty cells discarded.\<close>

definition spec_row :: "string \<Rightarrow> string list" where
  "spec_row line = filter (\<lambda>cell. cell \<noteq> []) (map trim (spec_cells [] (spec_runs line)))"

text \<open>The text lines of all pages: every text item, cut at its line breaks.\<close>

definition spec_lines :: "string list list \<Rightarrow> string list" where
  "spec_lines pagesText = concat (map (\<lambda>items. concat (map (split CHR 0x0A) items)) pagesText)"

text \<open>The rows: the lines that yield at least two cells.\<close>

definition spec_rows :: "string list list \<Rightarrow> string list list" where
  "spec_rows pagesText = filter (\<lambda>row. 2 \<le> length row) (map spec_row (spec_lines pagesText))"

section \<open>Properties of the double arithmetic\<close>

text \<open>The exponent is the binary exponent: \<open>2^e \<le> |v| < 2^(e + 1)\<close>.\<close>

lemma exponent_bounds:
  assumes "v \<noteq> 0"
  shows "2 powi exponent v \<le> \<bar>v\<bar> \<and> \<bar>v\<bar> < 2 powi (exponent v + 1)"
proof (cases "1 \<le> \<bar>v\<bar>")
  case True
  define n where "n = \<lfloor>\<bar>v\<bar>\<rfloor>"
  have n: "0 < n" using True by (simp add: n_def)
  then have b: "1 \<le> bitlen n" by (simp add: bitlen_alt_def)
  have e: "exponent v = bitlen n - 1" using True by (simp add: exponent_def n_def)
  from bitlen_bounds [OF n]
  have lo: "2 ^ nat (bitlen n - 1) \<le> n" and hi: "n < 2 ^ nat (bitlen n)" by simp_all
  have "real_of_int (2 ^ nat (bitlen n - 1)) \<le> real_of_int n" using lo by linarith
  also have "real_of_int n \<le> \<bar>v\<bar>" by (simp add: n_def)
  finally have 1: "2 powi (bitlen n - 1) \<le> \<bar>v\<bar>" using b by (simp add: power_int_def)
  have "n + 1 \<le> 2 ^ nat (bitlen n)" using hi by simp
  then have "real_of_int (n + 1) \<le> real_of_int (2 ^ nat (bitlen n))" by linarith
  moreover have "\<bar>v\<bar> < real_of_int (n + 1)" by (simp add: n_def)
  ultimately have 2: "\<bar>v\<bar> < 2 powi (bitlen n)" using b by (simp add: power_int_def)
  show ?thesis using 1 2 by (simp add: e)
next
  case False
  define u where "u = 1 / \<bar>v\<bar>"
  define m where "m = \<lceil>u\<rceil> - 1"
  have v: "0 < \<bar>v\<bar>" using assms by simp
  have u: "1 < u" using False v by (simp add: u_def)
  have m: "0 < m" using u by (simp add: m_def)
  then have b: "1 \<le> bitlen m" by (simp add: bitlen_alt_def)
  have e: "exponent v = - bitlen m" using False by (simp add: exponent_def m_def u_def)
  from bitlen_bounds [OF m]
  have lo: "2 ^ nat (bitlen m - 1) \<le> m" and hi: "m < 2 ^ nat (bitlen m)" by simp_all
  have "m + 1 \<le> 2 ^ nat (bitlen m)" using hi by simp
  then have "real_of_int (m + 1) \<le> real_of_int (2 ^ nat (bitlen m))" by linarith
  moreover have "u \<le> real_of_int (m + 1)" by (simp add: m_def)
  ultimately have ule: "u \<le> 2 ^ nat (bitlen m)" by simp
  have "real_of_int (2 ^ nat (bitlen m - 1)) \<le> real_of_int m" using lo by linarith
  moreover have "real_of_int m < u"
  proof -
    have "real_of_int \<lceil>u\<rceil> - 1 < u" using ceiling_correct [of u] by simp
    then show ?thesis by (simp add: m_def)
  qed
  ultimately have "real_of_int (2 ^ nat (bitlen m - 1)) < u" by (rule le_less_trans)
  then have ugt: "2 ^ nat (bitlen m - 1) < u" by simp
  have vu: "\<bar>v\<bar> = 1 / u" using v by (simp add: u_def)
  have p1: "(2 :: real) powi (- bitlen m) = 1 / 2 ^ nat (bitlen m)"
  proof -
    have "(2 :: real) powi (- bitlen m) = inverse (2 powi bitlen m)" by (rule power_int_minus)
    also have "(2 :: real) powi bitlen m = 2 ^ nat (bitlen m)" using b by (simp add: power_int_def)
    finally show ?thesis by (simp add: inverse_eq_divide)
  qed
  have p2: "(2 :: real) powi (- bitlen m + 1) = 1 / 2 ^ nat (bitlen m - 1)"
  proof -
    have "(2 :: real) powi (- (bitlen m - 1)) = inverse (2 powi (bitlen m - 1))"
      by (rule power_int_minus)
    also have "(2 :: real) powi (bitlen m - 1) = 2 ^ nat (bitlen m - 1)"
      using b by (simp add: power_int_def)
    finally have "(2 :: real) powi (- (bitlen m - 1)) = 1 / 2 ^ nat (bitlen m - 1)"
      by (simp add: inverse_eq_divide)
    moreover have "- bitlen m + 1 = - (bitlen m - 1)" by simp
    ultimately show ?thesis by (simp only:)
  qed
  have 1: "2 powi (- bitlen m) \<le> \<bar>v\<bar>"
  proof -
    have "1 / 2 ^ nat (bitlen m) \<le> 1 / u" using ule u by (intro divide_left_mono) simp_all
    then show ?thesis by (simp only: p1 vu)
  qed
  have 2: "\<bar>v\<bar> < 2 powi (- bitlen m + 1)"
  proof -
    have "0 < u * 2 ^ nat (bitlen m - 1)" using u by simp
    then have "1 / u < 1 / 2 ^ nat (bitlen m - 1)"
      using ugt by (intro divide_strict_left_mono) simp_all
    then show ?thesis by (simp only: p2 vu)
  qed
  show ?thesis using 1 2 by (simp add: e)
qed

lemma roundTiesToEven_nonpos: "v \<le> 0 \<Longrightarrow> roundTiesToEven v \<le> 0"
proof (cases "v = 0")
  case True
  then show ?thesis by (simp add: roundTiesToEven_def)
next
  case False
  assume "v \<le> 0"
  with False have "v < 0" by simp
  then have "\<lfloor>v\<rfloor> < 0" by simp
  then have "\<lfloor>v\<rfloor> \<le> 0" and "\<lfloor>v\<rfloor> + 1 \<le> 0" by linarith+
  then show ?thesis by (simp add: roundTiesToEven_def Let_def)
qed

lemma double_nonpos: "v \<le> 0 \<Longrightarrow> double v \<le> 0"
proof -
  assume v: "v \<le> 0"
  let ?ulp = "(2 :: real) powi (max (exponent v) (- 1022) - 52)"
  have ulp: "0 < ?ulp" by (rule zero_less_power_int) simp
  then have "v / ?ulp \<le> 0" using v by (simp add: divide_nonpos_pos)
  then have "real_of_int (roundTiesToEven (v / ?ulp)) \<le> 0"
    using roundTiesToEven_nonpos by simp
  then have "real_of_int (roundTiesToEven (v / ?ulp)) * ?ulp \<le> 0"
    using ulp by (simp add: mult_nonpos_nonneg)
  then show ?thesis by (simp add: double_def Let_def)
qed

lemma fsub_nonpos: "a \<le> b \<Longrightarrow> fsub a b \<le> 0"
  by (simp add: fsub_def double_nonpos)

text \<open>
  The doubles of \<open>0.1\<close> and of \<open>0.3 - 0.1\<close>, as JavaScript has them. Margins of 100 mm
  and 110 mm on a page 595.2765 points wide take the whole width in exact arithmetic;
  in doubles a positive width is left.
\<close>

lemma double_examples:
  "double 0.1 = 3602879701896397 / 36028797018963968"
  "fsub (double 0.3) (double 0.1) = 7205759403792793 / 36028797018963968"
  by code_simp+

lemma crop_rounding_example:
  "(100 + 110) * 2.83465 = (595.2765 :: real)"
  "fsub (fsub (double 595.2765) (fmul 110 (double 2.83465))) (fmul 100 (double 2.83465))
     = 1 / 8796093022208"
  by simp code_simp

section \<open>Properties of saving\<close>

lemma save_nonempty: "pdfDoc \<noteq> [] \<Longrightarrow> save pdfDoc = pdfDoc"
  by (simp add: save_def)

lemma save_Nil: "save [] = [defaultPage]"
  by (simp add: save_def)

section \<open>Properties of merging\<close>

lemma copyPages_all: "copyPages pdf (getPageIndices pdf) = Inr pdf"
  by (simp add: copyPages_def getPageIndices_def list_all_iff map_nth comp_def)

lemma mergeLoop_append: "mergeLoop mergedPdf files = Inr (mergedPdf @ concat files)"
  by (induction files arbitrary: mergedPdf) (simp_all add: copyPages_all)

text \<open>
  Claim C5, as amended. The claim holds when the sources have a page between them: then
  merging gives one document whose pages are all pages of the sources, the sources in
  the order supplied and the pages of each source in ascending order, nothing reordered
  or dropped; for a source A of two pages and a source B of three, the result has the
  five pages A.p1, A.p2, B.p1, B.p2, B.p3. When no source has a page, the merged
  document is saved with one blank page of the default size, which no source has.
\<close>

theorem mergePdfs_saved_in_order:
  "(concat files \<noteq> [] \<longrightarrow> mergePdfs files = Inr (concat files))
   \<and> (concat files = [] \<longrightarrow> mergePdfs files = Inr [defaultPage])"
  by (simp add: mergePdfs_def mergeLoop_append save_def)

theorem mergePdfs_saved_in_order_witness:
  "mergePdfs
    [[\<lparr>mediaBox = \<lparr>box_x = 0, box_y = 0, box_width = 600, box_height = 800\<rparr>, rotation = 0, content = [''A.p1'']\<rparr>,
      \<lparr>mediaBox = \<lparr>box_x = 0, box_y = 0, box_width = 600, box_height = 800\<rparr>, rotation = 0, content = [''A.p2'']\<rparr>],
     [\<lparr>mediaBox = \<lparr>box_x = 0, box_y = 0, box_width = 600, box_height = 800\<rparr>, rotation = 0, content = [''B.p1'']\<rparr>,
      \<lparr>mediaBox = \<lparr>box_x = 0, box_y = 0, box_width = 600, box_height = 800\<rparr>, rotation = 90, content = [''B.p2'']\<rparr>,
      \<lparr>mediaBox = \<lparr>box_x = 0, box_y = 0, box_width = 600, box_height = 800\<rparr>, rotation = 0, content = [''B.p3'']\<rparr>]]
   = Inr
    [\<lparr>mediaBox = \<lparr>box_x = 0, box_y = 0, box_width = 600, box_height = 800\<rparr>, rotation = 0, content = [''A.p1'']\<rparr>,
     \<lparr>mediaBox = \<lparr>box_x = 0, box_y = 0, box_width = 600, box_height = 800\<rparr>, rotation = 0, content = [''A.p2'']\<rparr>,
     \<lparr>mediaBox = \<lparr>box_x = 0, box_y = 0, box_width = 600, box_height = 800\<rparr>, rotation = 0, content = [''B.p1'']\<rparr>,
     \<lparr>mediaBox = \<lparr>box_x = 0, box_y = 0, box_width = 600, box_height = 800\<rparr>, rotation = 90, content = [''B.p2'']\<rparr>,
     \<lparr>mediaBox = \<lparr>box_x = 0, box_y = 0, box_width = 600, box_height = 800\<rparr>, rotation = 0, content = [''B.p3'']\<rparr>]"
  using mergePdfs_saved_in_order
    [of "[[\<lparr>mediaBox = \<lparr>box_x = 0, box_y = 0, box_width = 600, box_height = 800\<rparr>, rotation = 0, content = [''A.p1'']\<rparr>,
      \<lparr>mediaBox = \<lparr>box_x = 0, box_y = 0, box_width = 600, box_height = 800\<rparr>, rotation = 0, content = [''A.p2'']\<rparr>],
     [\<lparr>mediaBox = \<lparr>box_x = 0, box_y = 0, box_width = 600, box_height = 800\<rparr>, rotation = 0, content = [''B.p1'']\<rparr>,
      \<lparr>mediaBox = \<lparr>box_x = 0, box_y = 0, box_width = 600, box_height = 800\<rparr>, rotation = 90, content = [''B.p2'']\<rparr>,
      \<lparr>mediaBox = \<lparr>box_x = 0, box_y = 0, box_width = 600, box_height = 800\<rparr>, rotation = 0, content = [''B.p3'']\<rparr>]]"]
  by simp

text \<open>
  The claim C5 as it is written fails on the list of one source document that has no
  page: the list is not empty, the sources have no page, and the merged document has
  one page, the blank default page.
\<close>

theorem mergePdfs_blank_page_counterexample:
  "[[] :: string document] \<noteq> []
   \<and> concat [[] :: string document] = []
   \<and> mergePdfs [[] :: string document] = Inr [defaultPage]
   \<and> length (projr (mergePdfs [[] :: string document])) = 1"
  by (simp add: mergePdfs_def copyPages_def getPageIndices_def save_def)

section \<open>Properties of cropping\<close>

lemma cropLoop_break: "\<not> allPages opts \<Longrightarrow> cropLoop opts (Suc i) pages = pages"
  by (cases pages) simp_all

lemma cropLoop_hd: "pages \<noteq> [] \<Longrightarrow> hd (cropLoop opts 0 pages) = cropPage opts (hd pages)"
  by (cases pages) simp_all

lemma cropLoop_nonempty: "pages \<noteq> [] \<Longrightarrow> cropLoop opts i pages \<noteq> []"
  by (cases pages) simp_all

lemma cropPage_box:
  "cropPage opts page = page\<lparr>mediaBox :=
     \<lparr>box_x = fmul (left_mm opts) (double 2.83465),
      box_y = fmul (bottom_mm opts) (double 2.83465),
      box_width = fsub (fsub (box_width (mediaBox page)) (fmul (right_mm opts) (double 2.83465)))
                    (fmul (left_mm opts) (double 2.83465)),
      box_height = fsub (fsub (box_height (mediaBox page)) (fmul (top_mm opts) (double 2.83465)))
                     (fmul (bottom_mm opts) (double 2.83465))\<rparr>\<rparr>"
  by (simp add: cropPage_def setMediaBox_def Let_def)

text \<open>
  Claim C9. On a document of at least two pages, cropping with \<open>allPages\<close> false
  succeeds, keeps the number of pages, gives the first page the cropped box (its rotation
  and content stay) and leaves every other page as it was, box included.
\<close>

theorem cropPdf_first_page_only:
  assumes "2 \<le> length file" and "\<not> allPages opts"
  shows "\<exists>doc'. cropPdf file opts = Inr doc' \<and> length doc' = length file
           \<and> doc' ! 0 = cropPage opts (file ! 0)
           \<and> rotation (doc' ! 0) = rotation (file ! 0) \<and> content (doc' ! 0) = content (file ! 0)
           \<and> (\<forall>i. 0 < i \<and> i < length file \<longrightarrow> doc' ! i = file ! i)"
proof -
  from assms(1) obtain p ps where pages: "file = p # ps" by (cases "file") auto
  have "cropPdf file opts = Inr (cropPage opts p # ps)"
    using assms(2) by (simp add: pages cropPdf_def cropLoop_break save_def)
  moreover have "\<forall>i. 0 < i \<and> i < length file \<longrightarrow> (cropPage opts p # ps) ! i = file ! i"
    by (auto simp: pages nth_Cons split: nat.splits)
  ultimately show ?thesis by (simp add: pages cropPage_box)
qed

theorem cropPdf_first_page_only_witness:
  "cropPdf
     [\<lparr>mediaBox = \<lparr>box_x = 0, box_y = 0, box_width = 600, box_height = 800\<rparr>, rotation = 0, content = [''p1'']\<rparr>,
      \<lparr>mediaBox = \<lparr>box_x = 0, box_y = 0, box_width = 600, box_height = 800\<rparr>, rotation = 90, content = [''p2'']\<rparr>]
     \<lparr>top_mm = 10, right_mm = 10, bottom_mm = 10, left_mm = 10, allPages = False\<rparr>
   = Inr
     [\<lparr>mediaBox =
         \<lparr>box_x = fmul 10 (double 2.83465), box_y = fmul 10 (double 2.83465),
          box_width = fsub (fsub 600 (fmul 10 (double 2.83465))) (fmul 10 (double 2.83465)),
          box_height = fsub (fsub 800 (fmul 10 (double 2.83465))) (fmul 10 (double 2.83465))\<rparr>,
         rotation = 0, content = [''p1'']\<rparr>,
      \<lparr>mediaBox = \<lparr>box_x = 0, box_y = 0, box_width = 600, box_height = 800\<rparr>, rotation = 90, content = [''p2'']\<rparr>]"
  using cropPdf_first_page_only
    [of "[\<lparr>mediaBox = \<lparr>box_x = 0, box_y = 0, box_width = 600, box_height = 800\<rparr>, rotation = 0, content = [''p1'']\<rparr>,
          \<lparr>mediaBox = \<lparr>box_x = 0, box_y = 0, box_width = 600, box_height = 800\<rparr>, rotation = 90, content = [''p2'']\<rparr>]"
        "\<lparr>top_mm = 10, right_mm = 10, bottom_mm = 10, left_mm = 10, allPages = False\<rparr>"]
  by (simp add: cropPdf_def cropPage_box save_def)

text \<open>
  Claim C7, as amended. The claim asks that a crop whose box has a width or height of at
  most 0 fails with DegenerateCropBox. The code has no such check: on every document with
  a page, cropping succeeds and the first page gets the box
  \<open>[left, bottom, (width - right) - left, (height - top) - bottom]\<close>, the margins
  converted at the double of 2.83465 points a millimetre and every operation rounded to
  a double, whatever the sign of that width and height; the width stored is at most 0
  whenever the right edge computed, \<open>width - right\<close>, is not above the left edge
  computed, and so for the height.
\<close>

theorem cropPdf_unchecked_box:
  assumes "file \<noteq> []"
  shows "\<exists>doc'. cropPdf file opts = Inr doc'
           \<and> mediaBox (hd doc') =
               \<lparr>box_x = fmul (left_mm opts) (double 2.83465),
                box_y = fmul (bottom_mm opts) (double 2.83465),
                box_width = fsub (fsub (box_width (mediaBox (hd file)))
                                    (fmul (right_mm opts) (double 2.83465)))
                              (fmul (left_mm opts) (double 2.83465)),
                box_height = fsub (fsub (box_height (mediaBox (hd file)))
                                     (fmul (top_mm opts) (double 2.83465)))
                               (fmul (bottom_mm opts) (double 2.83465))\<rparr>
           \<and> (fsub (box_width (mediaBox (hd file))) (fmul (right_mm opts) (double 2.83465))
                  \<le> fmul (left_mm opts) (double 2.83465)
                \<longrightarrow> box_width (mediaBox (hd doc')) \<le> 0)
           \<and> (fsub (box_height (mediaBox (hd file))) (fmul (top_mm opts) (double 2.83465))
                  \<le> fmul (bottom_mm opts) (double 2.83465)
                \<longrightarrow> box_height (mediaBox (hd doc')) \<le> 0)"
  using assms
  by (simp add: cropPdf_def cropLoop_hd cropPage_box cropLoop_nonempty save_nonempty fsub_nonpos)

lemma crop_example_edges:
  "fsub 100 (fmul 60 (double 2.83465)) \<le> fmul 0 (double 2.83465)"
  by code_simp

theorem cropPdf_unchecked_box_witness:
  "\<exists>doc'. cropPdf
       [\<lparr>mediaBox = \<lparr>box_x = 0, box_y = 0, box_width = 100, box_height = 200\<rparr>, rotation = 0, content = [''p1'']\<rparr>]
       \<lparr>top_mm = 0, right_mm = 60, bottom_mm = 0, left_mm = 0, allPages = True\<rparr> = Inr doc'
     \<and> box_width (mediaBox (hd doc')) \<le> 0"
  using cropPdf_unchecked_box
    [of "[\<lparr>mediaBox = \<lparr>box_x = 0, box_y = 0, box_width = 100, box_height = 200\<rparr>, rotation = 0, content = [''p1'']\<rparr>]"
        "\<lparr>top_mm = 0, right_mm = 60, bottom_mm = 0, left_mm = 0, allPages = True\<rparr>"]
    crop_example_edges
  by auto

text \<open>
  The claim C7 as it is written fails on a page of 100 by 100 points cropped by 100 mm
  on the left and on the right: the margins sum to more than the width, yet the
  operation returns a document, whose page has a box of negative width.
\<close>

lemma crop_example_width:
  "fsub (fsub 100 (fmul 100 (double 2.83465))) (fmul 100 (double 2.83465)) < 0"
  by code_simp

theorem cropPdf_degenerate_counterexample:
  "(100 :: real) \<le> (100 + 100) * 2.83465
   \<and> \<not> isl (cropPdf
         [\<lparr>mediaBox = \<lparr>box_x = 0, box_y = 0, box_width = 100, box_height = 100\<rparr>, rotation = 0, content = [''p1'']\<rparr>]
         \<lparr>top_mm = 0, right_mm = 100, bottom_mm = 0, left_mm = 100, allPages = True\<rparr>)
   \<and> box_width (mediaBox (hd (projr (cropPdf
         [\<lparr>mediaBox = \<lparr>box_x = 0, box_y = 0, box_width = 100, box_height = 100\<rparr>, rotation = 0, content = [''p1'']\<rparr>]
         \<lparr>top_mm = 0, right_mm = 100, bottom_mm = 0, left_mm = 100, allPages = True\<rparr>)))) < 0"
  using crop_example_width by (simp add: cropPdf_def cropPage_box save_def)

section \<open>Properties of rotating\<close>

lemma forEach_setRotation:
  "d mod 90 = 0 \<Longrightarrow>
   forEach (setRotation (Some d)) pages = Inr (map (\<lambda>page. page\<lparr>rotation := d\<rparr>) pages)"
  by (induction pages) (simp_all add: setRotation_def)

lemma parseInt_90: "parseInt ''90'' 0 = Some 90"
  by (simp add: parseInt_def isWhiteSpace_def isRadixDigit_def digitValue_def digitsValue_def)

lemma parseInt_180: "parseInt ''180'' 0 = Some 180"
  by (simp add: parseInt_def isWhiteSpace_def isRadixDigit_def digitValue_def digitsValue_def)

text \<open>
  Claim C1, as amended. The claim asks for the rotation \<open>(current + angle) mod 360\<close>.
  The code does not read the current rotation: for an angle that parses to a multiple
  of 90, rotating a document that has a page succeeds and sets the rotation of every
  page to that angle itself, whatever the page's rotation was, and leaves the rest of
  the page as it was. A document without pages is saved with one blank page of the
  default size, whose rotation is 0.
\<close>

theorem rotatePdf_sets_angle:
  assumes "parseInt angle 0 = Some d" and "d mod 90 = 0"
  shows "(file \<noteq> [] \<longrightarrow> rotatePdf file angle = Inr (map (\<lambda>page. page\<lparr>rotation := d\<rparr>) file))
       \<and> (file = [] \<longrightarrow> rotatePdf file angle = Inr [defaultPage])"
  using assms by (simp add: rotatePdf_def forEach_setRotation save_def)

theorem rotatePdf_sets_angle_witness:
  "rotatePdf
     [\<lparr>mediaBox = \<lparr>box_x = 0, box_y = 0, box_width = 600, box_height = 800\<rparr>, rotation = 270, content = [''p1'']\<rparr>,
      \<lparr>mediaBox = \<lparr>box_x = 0, box_y = 0, box_width = 600, box_height = 800\<rparr>, rotation = 0, content = [''p2'']\<rparr>]
     ''180''
   = Inr
     [\<lparr>mediaBox = \<lparr>box_x = 0, box_y = 0, box_width = 600, box_height = 800\<rparr>, rotation = 180, content = [''p1'']\<rparr>,
      \<lparr>mediaBox = \<lparr>box_x = 0, box_y = 0, box_width = 600, box_height = 800\<rparr>, rotation = 180, content = [''p2'']\<rparr>]
   \<and> rotatePdf ([] :: string document) ''180'' = Inr [defaultPage]"
  using rotatePdf_sets_angle [OF parseInt_180, of
      "[\<lparr>mediaBox = \<lparr>box_x = 0, box_y = 0, box_width = 600, box_height = 800\<rparr>, rotation = 270, content = [''p1'']\<rparr>,
        \<lparr>mediaBox = \<lparr>box_x = 0, box_y = 0, box_width = 600, box_height = 800\<rparr>, rotation = 0, content = [''p2'']\<rparr>]"]
    rotatePdf_sets_angle [OF parseInt_180, of "[] :: string document"]
  by simp

text \<open>
  The claim C1 as it is written fails. A page whose rotation is 90, rotated by 90, keeps
  the rotation 90, where \<open>(90 + 90) mod 360\<close> is 180; and a page of rotation 0 rotated by
  90 twice ends at 90, while one rotation by 180 gives 180.
\<close>

theorem rotatePdf_additive_counterexample:
  "rotatePdf
     [\<lparr>mediaBox = \<lparr>box_x = 0, box_y = 0, box_width = 600, box_height = 800\<rparr>, rotation = 90, content = [''p1'']\<rparr>] ''90''
   = Inr [\<lparr>mediaBox = \<lparr>box_x = 0, box_y = 0, box_width = 600, box_height = 800\<rparr>, rotation = 90, content = [''p1'']\<rparr>]
   \<and> (90 + 90) mod 360 \<noteq> (90 :: int)
   \<and> rotatePdf (projr (rotatePdf
       [\<lparr>mediaBox = \<lparr>box_x = 0, box_y = 0, box_width = 600, box_height = 800\<rparr>, rotation = 0, content = [''p1'']\<rparr>] ''90'')) ''90''
     = Inr [\<lparr>mediaBox = \<lparr>box_x = 0, box_y = 0, box_width = 600, box_height = 800\<rparr>, rotation = 90, content = [''p1'']\<rparr>]
   \<and> rotatePdf
       [\<lparr>mediaBox = \<lparr>box_x = 0, box_y = 0, box_width = 600, box_height = 800\<rparr>, rotation = 0, content = [''p1'']\<rparr>] ''180''
     = Inr [\<lparr>mediaBox = \<lparr>box_x = 0, box_y = 0, box_width = 600, box_height = 800\<rparr>, rotation = 180, content = [''p1'']\<rparr>]"
  by (simp add: rotatePdf_def parseInt_90 parseInt_180 setRotation_def save_def)

section \<open>Properties of the range parser\<close>

lemma splitOn_no_sep: "d \<notin> set t \<Longrightarrow> splitOn d cur t = [cur @ t]"
  by (induction t arbitrary: cur) auto

lemma splitOn_sep:
  "d \<notin> set t \<Longrightarrow> splitOn d cur (t @ d # rest) = (cur @ t) # splitOn d [] rest"
  by (induction t arbitrary: cur) auto

lemma split_join:
  "list_all (\<lambda>t. d \<notin> set t) toks \<Longrightarrow> toks \<noteq> [] \<Longrightarrow> split d (join d toks) = toks"
proof (induction d toks rule: join.induct)
  case (1 d)
  then show ?case by simp
next
  case (2 d s)
  then show ?case by (simp add: split_def splitOn_no_sep)
next
  case (3 d s t ts)
  then show ?case by (simp add: split_def splitOn_sep)
qed

lemma parsePart_acc: "parsePart m acc p = acc @ parsePart m [] p"
  by (simp add: parsePart_def Let_def split: list.splits option.splits)

lemma foldl_parsePart:
  "foldl (parsePart m) acc ps = acc @ concat (map (parsePart m []) ps)"
proof (induction ps arbitrary: acc)
  case Nil
  then show ?case by simp
next
  case (Cons p ps)
  show ?case by (simp add: Cons.IH [of "parsePart m acc p"]) (subst parsePart_acc, simp)
qed

lemma parsePart_cases:
  "parsePart m [] p = [] \<or>
   (\<exists>a b. parsePart m [] p = [\<lparr>start = a, end' = b\<rparr>] \<and> 1 \<le> a \<and> a \<le> b \<and> b \<le> m)"
  by (simp add: parsePart_def Let_def split: list.split option.split)

lemma parsePart_valid:
  "r \<in> set (parsePart m [] p) \<Longrightarrow> 1 \<le> start r \<and> start r \<le> end' r \<and> end' r \<le> m"
  using parsePart_cases [of m p] by auto

lemma parsePart_length: "length (parsePart m [] p) \<le> 1"
  using parsePart_cases [of m p] by auto

lemma length_concat_le:
  "(\<And>x. x \<in> set xs \<Longrightarrow> length (f x) \<le> 1) \<Longrightarrow> length (concat (map f xs)) \<le> length xs"
proof (induction xs)
  case Nil
  then show ?case by simp
next
  case (Cons a xs)
  have "length (f a) \<le> 1" using Cons.prems by simp
  moreover have "length (concat (map f xs)) \<le> length xs" using Cons by simp
  ultimately show ?case by simp
qed

text \<open>
  Claim C10. For every expression and every \<open>maxPages\<close> the range parser returns an
  array, never an error; every range of the result satisfies
  \<open>1 \<le> start \<le> end \<le> maxPages\<close>; the result is what the parts yield one after the
  other, each part yielding one range or none, so a part that yields no such range is
  left out and nothing else changes.
\<close>

theorem parseRanges_total_valid:
  "\<exists>rs. parseRanges s m = Inr rs
     \<and> rs = concat (map (parsePart m []) (split CHR '','' s))
     \<and> (\<forall>r \<in> set rs. 1 \<le> start r \<and> start r \<le> end' r \<and> end' r \<le> m)
     \<and> (\<forall>part. length (parsePart m [] part) \<le> 1)
     \<and> length rs \<le> length (split CHR '','' s)"
proof -
  let ?rs = "concat (map (parsePart m []) (split CHR '','' s))"
  have "parseRanges s m = Inr ?rs" by (simp add: parseRanges_def foldl_parsePart)
  moreover have "\<forall>r \<in> set ?rs. 1 \<le> start r \<and> start r \<le> end' r \<and> end' r \<le> m"
    using parsePart_valid by auto
  moreover have "length ?rs \<le> length (split CHR '','' s)"
    by (rule length_concat_le) (rule parsePart_length)
  ultimately show ?thesis using parsePart_length by blast
qed

theorem parseRanges_total_valid_witness:
  "parseRanges ''1-3,x,0-2,5'' 10 = Inr [\<lparr>start = 1, end' = 3\<rparr>, \<lparr>start = 5, end' = 5\<rparr>]
   \<and> list_all (\<lambda>r. 1 \<le> start r \<and> start r \<le> end' r \<and> end' r \<le> 10)
        [\<lparr>start = 1, end' = 3\<rparr>, \<lparr>start = 5, end' = 5\<rparr>]
   \<and> length [\<lparr>start = 1, end' = 3\<rparr>, \<lparr>start = 5, end' = 5\<rparr>]
        \<le> length (split CHR '','' ''1-3,x,0-2,5'')"
proof -
  have e: "parseRanges ''1-3,x,0-2,5'' 10 = Inr [\<lparr>start = 1, end' = 3\<rparr>, \<lparr>start = 5, end' = 5\<rparr>]"
    by code_simp
  from parseRanges_total_valid [of "''1-3,x,0-2,5''" 10] obtain rs
    where a: "parseRanges ''1-3,x,0-2,5'' 10 = Inr rs"
      and b: "\<forall>r \<in> set rs. 1 \<le> start r \<and> start r \<le> end' r \<and> end' r \<le> 10"
      and c: "length rs \<le> length (split CHR '','' ''1-3,x,0-2,5'')"
    by blast
  from a e have "rs = [\<lparr>start = 1, end' = 3\<rparr>, \<lparr>start = 5, end' = 5\<rparr>]" by simp
  with b c e show ?thesis by (simp add: list_all_iff)
qed



lemma digitValue_char_of: "k < 10 \<Longrightarrow> digitValue (char_of (48 + k)) = k"
  by (simp add: digitValue_def Let_def)

lemma digits_dec: "c \<in> set (digits n) \<Longrightarrow> digitValue c < 10"
proof (induction n rule: digits.induct)
  case (1 n)
  then show ?case
    by (subst (asm) digits.simps) (auto simp: digitValue_char_of split: if_splits)
qed

lemma digits_nonempty: "digits n \<noteq> []"
  by (subst digits.simps) simp

lemma digitsValue_snoc: "digitsValue R (Z @ [c]) = digitsValue R Z * R + digitValue c"
  by (simp add: digitsValue_def)

lemma digitsValue_digits: "digitsValue 10 (digits n) = n"
proof (induction n rule: digits.induct)
  case (1 n)
  show ?case
  proof (cases "n < 10")
    case True
    then show ?thesis by (subst digits.simps) (simp add: digitsValue_def digitValue_char_of)
  next
    case False
    then show ?thesis
      using 1 by (subst digits.simps) (simp add: digitsValue_snoc digitValue_char_of)
  qed
qed

lemma dec_not_ws: "digitValue c < 10 \<Longrightarrow> \<not> isWhiteSpace c"
  by (auto simp: isWhiteSpace_def digitValue_def Let_def)

lemma dec_not_special:
  "digitValue c < 10 \<Longrightarrow> c \<noteq> CHR ''-'' \<and> c \<noteq> CHR ''+'' \<and> c \<noteq> CHR '','' \<and> c \<noteq> CHR ''x'' \<and> c \<noteq> CHR ''X''"
  by (auto simp: digitValue_def Let_def)

lemma parseInt_decimal:
  assumes "Z \<noteq> []" and "\<forall>c \<in> set Z. digitValue c < 10"
  shows "parseInt Z 0 = Some (int (digitsValue 10 Z))"
proof -
  obtain c cs where Z: "Z = c # cs" using assms(1) by (cases Z) auto
  have c: "digitValue c < 10" using assms(2) Z by simp
  have 1: "dropWhile isWhiteSpace Z = Z" using c Z by (simp add: dec_not_ws)
  have 2: "c \<noteq> CHR ''-''" "c \<noteq> CHR ''+''" using c dec_not_special by auto
  have 3: "take 1 cs \<noteq> ''x''" "take 1 cs \<noteq> ''X''"
    using assms(2) Z dec_not_special by (cases cs; auto)+
  have 4: "takeWhile (isRadixDigit 10) Z = Z"
    using assms(2) by (simp add: isRadixDigit_def)
  have 5: "takeWhile (isRadixDigit 10) (c # cs) = c # cs" using 4 Z by simp
  show ?thesis unfolding parseInt_def 1 unfolding Z using 2 3 5 by (simp add: Let_def)
qed

lemma parseInt_digits: "parseInt (digits n) 0 = Some (int n)"
  using parseInt_decimal [of "digits n"] by (simp add: digits_nonempty digits_dec digitsValue_digits)



lemma parsePart_empty: "parsePart m [] [] = []"
  by (simp add: parsePart_def trim_def parseInt_def Let_def)

lemma parseRanges_join:
  assumes "list_all (\<lambda>t. CHR '','' \<notin> set t) toks"
  shows "parseRanges (join CHR '','' toks) m = Inr (concat (map (parsePart m []) toks))"
proof (cases "toks = []")
  case True
  then show ?thesis by (simp add: parseRanges_def split_def parsePart_empty)
next
  case False
  then show ?thesis using assms by (simp add: parseRanges_def foldl_parsePart split_join)
qed

lemma trim_pad:
  assumes "s \<noteq> []" and "\<not> isWhiteSpace (hd s)" and "\<not> isWhiteSpace (last s)"
    and "list_all isWhiteSpace w1" and "list_all isWhiteSpace w2"
  shows "trim (w1 @ s @ w2) = s"
proof -
  have "dropWhile isWhiteSpace (w1 @ s @ w2) = dropWhile isWhiteSpace (s @ w2)"
    by (rule dropWhile_append2) (use assms(4) in \<open>simp add: list_all_iff\<close>)
  also have "\<dots> = s @ w2"
    using assms(1,2) by (cases s) simp_all
  finally have 1: "dropWhile isWhiteSpace (w1 @ s @ w2) = s @ w2" .
  have "dropWhile isWhiteSpace (rev w2 @ rev s) = dropWhile isWhiteSpace (rev s)"
    by (rule dropWhile_append2) (use assms(5) in \<open>simp add: list_all_iff\<close>)
  also have "\<dots> = rev s"
    using assms(1,3) by (cases s rule: rev_cases) simp_all
  finally have 2: "dropWhile isWhiteSpace (rev w2 @ rev s) = rev s" .
  show ?thesis by (simp add: trim_def 1 2)
qed

lemma digits_hd: "digitValue (hd (digits n)) < 10"
  using digits_dec [of "hd (digits n)" n] digits_nonempty [of n] by simp

lemma digits_last: "digitValue (last (digits n)) < 10"
  using digits_dec [of "last (digits n)" n] digits_nonempty [of n] by simp

lemma toString_nonneg: "0 \<le> a \<Longrightarrow> toString a = digits (nat a)"
  by (simp add: toString_def)

lemma digits_no_hyphen: "CHR ''-'' \<notin> set (digits n)"
proof
  assume "CHR ''-'' \<in> set (digits n)"
  then have "digitValue CHR ''-'' < 10" by (rule digits_dec)
  then show False by (simp add: digitValue_def)
qed

lemma hyphen_not_ws: "\<not> isWhiteSpace CHR ''-''"
  by (simp add: isWhiteSpace_def)

lemma ws_no_hyphen: "list_all isWhiteSpace w \<Longrightarrow> CHR ''-'' \<notin> set w"
  using hyphen_not_ws by (auto simp: list_all_iff)

lemma parsePart_single:
  assumes "0 \<le> a" and "list_all isWhiteSpace w1" and "list_all isWhiteSpace w2"
  shows "parsePart m [] (w1 @ toString a @ w2)
         = (if 1 \<le> a \<and> a \<le> m then [\<lparr>start = a, end' = a\<rparr>] else [])"
proof -
  let ?d = "digits (nat a)"
  have t: "trim (w1 @ ?d @ w2) = ?d"
    by (rule trim_pad) (simp_all add: digits_nonempty digits_hd digits_last dec_not_ws assms)
  have nohyphen: "CHR ''-'' \<notin> set ?d" by (rule digits_no_hyphen)
  show ?thesis using assms(1)
    by (simp add: parsePart_def toString_nonneg t nohyphen parseInt_digits)
qed

lemma parsePart_pair:
  assumes "0 \<le> a" and "0 \<le> b" and "list_all isWhiteSpace w1" and "list_all isWhiteSpace w2"
    and "list_all isWhiteSpace w3" and "list_all isWhiteSpace w4"
  shows "parsePart m [] (w1 @ toString a @ w2 @ ''-'' @ w3 @ toString b @ w4)
         = (if 1 \<le> a \<and> b \<le> m \<and> a \<le> b then [\<lparr>start = a, end' = b\<rparr>] else [])"
proof -
  define da where "da = digits (nat a)"
  define db where "db = digits (nat b)"
  define s where "s = (da @ w2) @ CHR ''-'' # (w3 @ db)"
  have da: "da \<noteq> []" "\<not> isWhiteSpace (hd da)" "\<not> isWhiteSpace (last da)" "CHR ''-'' \<notin> set da"
    by (simp_all add: da_def digits_nonempty digits_hd digits_last dec_not_ws digits_no_hyphen)
  have db: "db \<noteq> []" "\<not> isWhiteSpace (hd db)" "\<not> isWhiteSpace (last db)" "CHR ''-'' \<notin> set db"
    by (simp_all add: db_def digits_nonempty digits_hd digits_last dec_not_ws digits_no_hyphen)
  have s_ne: "s \<noteq> []" by (simp add: s_def)
  have s_hd: "hd s = hd da" using da(1) by (simp add: s_def)
  have s_last: "last s = last db" using db(1) by (simp add: s_def)
  have tr: "trim (w1 @ s @ w4) = s"
    using s_ne assms(3,6) da(2) db(3) by (intro trim_pad) (simp_all add: s_hd s_last)
  have eq: "w1 @ toString a @ w2 @ ''-'' @ w3 @ toString b @ w4 = w1 @ s @ w4"
    using assms(1,2) by (simp add: s_def da_def db_def toString_nonneg)
  have t: "trim (w1 @ toString a @ w2 @ ''-'' @ w3 @ toString b @ w4) = s"
    unfolding eq by (rule tr)
  have hy: "CHR ''-'' \<in> set s" by (simp add: s_def)
  have na: "CHR ''-'' \<notin> set (da @ w2)" using assms(4) da(4) by (simp add: ws_no_hyphen)
  have nb: "CHR ''-'' \<notin> set (w3 @ db)" using assms(5) db(4) by (simp add: ws_no_hyphen)
  have "splitOn CHR ''-'' [] s = ([] @ (da @ w2)) # splitOn CHR ''-'' [] (w3 @ db)"
    unfolding s_def by (rule splitOn_sep [OF na])
  also have "splitOn CHR ''-'' [] (w3 @ db) = [[] @ (w3 @ db)]"
    by (rule splitOn_no_sep [OF nb])
  finally have sp: "split CHR ''-'' s = [da @ w2, w3 @ db]" by (simp add: split_def)
  have ta: "trim (da @ w2) = da"
    using trim_pad [OF da(1,2,3), of "[]" w2] assms(4) by simp
  have tb: "trim (w3 @ db) = db"
    using trim_pad [OF db(1,2,3), of w3 "[]"] assms(5) by simp
  have pa: "parseInt da 0 = Some a" using assms(1) by (simp add: da_def parseInt_digits)
  have pb: "parseInt db 0 = Some b" using assms(2) by (simp add: db_def parseInt_digits)
  show ?thesis unfolding parsePart_def t Let_def using hy by (simp add: sp ta tb pa pb)
qed

lemma digits_no_comma: "CHR '','' \<notin> set (digits n)"
proof
  assume "CHR '','' \<in> set (digits n)"
  then have "digitValue CHR '','' < 10" by (rule digits_dec)
  then show False by (simp add: digitValue_def)
qed

lemma parsePart_pair_plain:
  assumes "0 \<le> a" and "0 \<le> b"
  shows "parsePart m [] (toString a @ ''-'' @ toString b)
         = (if 1 \<le> a \<and> b \<le> m \<and> a \<le> b then [\<lparr>start = a, end' = b\<rparr>] else [])"
  using parsePart_pair [OF assms, of "[]" "[]" "[]" "[]" m] by simp

lemma parsePart_single_plain:
  assumes "0 \<le> a"
  shows "parsePart m [] (toString a)
         = (if 1 \<le> a \<and> a \<le> m then [\<lparr>start = a, end' = a\<rparr>] else [])"
  using parsePart_single [OF assms, of "[]" "[]" m] by simp

lemma toString_examples: "toString 0 = ''0''" "toString 2 = ''2''" "toString 5 = ''5''" "toString 11 = ''11''"
  by code_simp+

text \<open>
  Claim C2, as amended. The claim asks that an endpoint outside \<open>[1, maxPage]\<close> makes
  the parse fail with OutOfBounds. The parser has no failure: a part \<open>A-B\<close> with an
  endpoint outside \<open>[1, maxPage]\<close>, wherever it stands in the expression, is left out,
  and the parse returns what the other parts yield; the same holds for a bare page number
  outside the interval.
\<close>

theorem parseRanges_drops_out_of_bounds:
  assumes "list_all (\<lambda>t. CHR '','' \<notin> set t) pre" and "list_all (\<lambda>t. CHR '','' \<notin> set t) post"
    and "0 \<le> a" and "0 \<le> b" and "a < 1 \<or> m < a \<or> b < 1 \<or> m < b"
  shows "parseRanges (join CHR '','' (pre @ [toString a @ ''-'' @ toString b] @ post)) m
           = parseRanges (join CHR '','' (pre @ post)) m
       \<and> \<not> isl (parseRanges (join CHR '','' (pre @ [toString a @ ''-'' @ toString b] @ post)) m)
       \<and> (a < 1 \<or> m < a \<longrightarrow>
            parseRanges (join CHR '','' (pre @ [toString a] @ post)) m
              = parseRanges (join CHR '','' (pre @ post)) m
            \<and> \<not> isl (parseRanges (join CHR '','' (pre @ [toString a] @ post)) m))"
proof -
  have ca: "CHR '','' \<notin> set (toString a)" and cb: "CHR '','' \<notin> set (toString b)"
    using assms(3,4) by (simp_all add: toString_nonneg digits_no_comma)
  have c1: "list_all (\<lambda>t. CHR '','' \<notin> set t) (pre @ [toString a @ ''-'' @ toString b] @ post)"
    using assms(1,2) ca cb by simp
  have c2: "list_all (\<lambda>t. CHR '','' \<notin> set t) (pre @ [toString a] @ post)"
    using assms(1,2) ca by simp
  have c3: "list_all (\<lambda>t. CHR '','' \<notin> set t) (pre @ post)"
    using assms(1,2) by simp
  have d1: "parsePart m [] (toString a @ ''-'' @ toString b) = []"
    using parsePart_pair_plain [OF assms(3,4), of m] assms(5) by auto
  have d2: "a < 1 \<or> m < a \<Longrightarrow> parsePart m [] (toString a) = []"
    using parsePart_single_plain [OF assms(3), of m] by auto
  show ?thesis
    by (simp only: parseRanges_join [OF c1] parseRanges_join [OF c2] parseRanges_join [OF c3])
       (use d1 d2 in simp)
qed


theorem parseRanges_drops_out_of_bounds_witness:
  "parseRanges ''1-3,0-2,5'' 10 = parseRanges ''1-3,5'' 10
   \<and> parseRanges ''0-2'' 10 = Inr []
   \<and> parseRanges ''1-3,0,5'' 10 = parseRanges ''1-3,5'' 10"
proof -
  have "parseRanges (join CHR '','' ([''1-3''] @ [toString 0 @ ''-'' @ toString 2] @ [''5''])) 10
          = parseRanges (join CHR '','' ([''1-3''] @ [''5''])) 10"
    and "parseRanges (join CHR '','' ([''1-3''] @ [toString 0] @ [''5''])) 10
          = parseRanges (join CHR '','' ([''1-3''] @ [''5''])) 10"
    using parseRanges_drops_out_of_bounds [of "[''1-3'']" "[''5'']" 0 2 10] by simp_all
  moreover have "parseRanges (join CHR '','' ([] @ [toString 0 @ ''-'' @ toString 2] @ [])) 10
          = parseRanges (join CHR '','' ([] @ [])) 10"
    using parseRanges_drops_out_of_bounds [of "[]" "[]" 0 2 10] by simp
  moreover have "parseRanges [] 10 = Inr []" by code_simp
  ultimately show ?thesis by (simp add: toString_examples)
qed

text \<open>
  The claim C2 as it is written fails on its own example: parsing \<open>0-2\<close> with
  \<open>maxPage\<close> 10 returns the empty array.
\<close>

theorem parseRanges_out_of_bounds_counterexample:
  "parseRanges ''0-2'' 10 = Inr []"
  by code_simp

text \<open>
  Claim C4. Parsing \<open>1-3,5,7-9\<close> with \<open>maxPage\<close> 10 returns the ranges (1,3), (5,5),
  (7,9). For every expression the result is the ranges of its comma-separated parts in
  the order of the parts, nothing sorted or merged, and so for parts joined by commas;
  a bare integer
  yields what \<open>N-N\<close> yields; white space around a part and around the hyphen changes
  nothing.
\<close>

theorem parseRanges_token_order:
  assumes "list_all (\<lambda>t. CHR '','' \<notin> set t) toks"
    and "0 \<le> a" and "0 \<le> b"
    and "list_all isWhiteSpace w1" and "list_all isWhiteSpace w2"
    and "list_all isWhiteSpace w3" and "list_all isWhiteSpace w4"
  shows "parseRanges ''1-3,5,7-9'' 10
           = Inr [\<lparr>start = 1, end' = 3\<rparr>, \<lparr>start = 5, end' = 5\<rparr>, \<lparr>start = 7, end' = 9\<rparr>]
       \<and> parseRanges (join CHR '','' toks) m = Inr (concat (map (parsePart m []) toks))
       \<and> parseRanges expr m = Inr (concat (map (parsePart m []) (split CHR '','' expr)))
       \<and> parsePart m [] (w1 @ toString a @ w2) = parsePart m [] (toString a @ ''-'' @ toString a)
       \<and> parsePart m [] (w1 @ toString a @ w2 @ ''-'' @ w3 @ toString b @ w4)
           = parsePart m [] (toString a @ ''-'' @ toString b)
       \<and> parsePart m [] (toString a @ ''-'' @ toString b)
           = (if 1 \<le> a \<and> b \<le> m \<and> a \<le> b then [\<lparr>start = a, end' = b\<rparr>] else [])"
proof -
  have 1: "parseRanges ''1-3,5,7-9'' 10
           = Inr [\<lparr>start = 1, end' = 3\<rparr>, \<lparr>start = 5, end' = 5\<rparr>, \<lparr>start = 7, end' = 9\<rparr>]"
    by code_simp
  have 2: "parseRanges (join CHR '','' toks) m = Inr (concat (map (parsePart m []) toks))"
    by (rule parseRanges_join [OF assms(1)])
  have 3: "parsePart m [] (w1 @ toString a @ w2) = parsePart m [] (toString a @ ''-'' @ toString a)"
    by (simp only: parsePart_single [OF assms(2,4,5)] parsePart_pair_plain [OF assms(2,2)]) simp
  have 4: "parsePart m [] (w1 @ toString a @ w2 @ ''-'' @ w3 @ toString b @ w4)
           = parsePart m [] (toString a @ ''-'' @ toString b)"
    by (simp only: parsePart_pair [OF assms(2,3,4,5,6,7)] parsePart_pair_plain [OF assms(2,3)])
  have 5: "parseRanges expr m = Inr (concat (map (parsePart m []) (split CHR '','' expr)))"
    by (simp add: parseRanges_def foldl_parsePart)
  show ?thesis using 1 2 3 4 5 parsePart_pair_plain [OF assms(2,3), of m] by blast
qed

theorem parseRanges_token_order_witness:
  "parseRanges ''7-9, 2 - 5 ,1-3,2-5, 2 '' 10
     = Inr [\<lparr>start = 7, end' = 9\<rparr>, \<lparr>start = 2, end' = 5\<rparr>, \<lparr>start = 1, end' = 3\<rparr>,
            \<lparr>start = 2, end' = 5\<rparr>, \<lparr>start = 2, end' = 2\<rparr>]
   \<and> parsePart 10 [] '' 2 '' = parsePart 10 [] ''2-2''
   \<and> parsePart 10 [] '' 2 - 5 '' = parsePart 10 [] ''2-5''
   \<and> parsePart 10 [] ''2-5'' = [\<lparr>start = 2, end' = 5\<rparr>]"
proof -
  have c: "list_all (\<lambda>t. CHR '','' \<notin> set t) [''7-9'', '' 2 - 5 '', ''1-3'', ''2-5'', '' 2 '']"
    by simp
  have w: "list_all isWhiteSpace '' ''" by (simp add: isWhiteSpace_def)
  have e: "concat (map (parsePart 10 []) [''7-9'', '' 2 - 5 '', ''1-3'', ''2-5'', '' 2 ''])
     = [\<lparr>start = 7, end' = 9\<rparr>, \<lparr>start = 2, end' = 5\<rparr>, \<lparr>start = 1, end' = 3\<rparr>,
            \<lparr>start = 2, end' = 5\<rparr>, \<lparr>start = 2, end' = 2\<rparr>]"
    by code_simp
  show ?thesis
    using parseRanges_token_order [OF c, of 2 5 "'' ''" "'' ''" "'' ''" "'' ''" 10 "''7-9''"] w e
    by (simp add: toString_examples)
qed

section \<open>Properties of splitting\<close>

lemma parseInt_decimal10:
  assumes "Z \<noteq> []" and "\<forall>c \<in> set Z. digitValue c < 10"
  shows "parseInt Z 10 = Some (int (digitsValue 10 Z))"
proof -
  obtain c cs where Z: "Z = c # cs" using assms(1) by (cases Z) auto
  have c: "digitValue c < 10" using assms(2) Z by simp
  have 1: "dropWhile isWhiteSpace Z = Z" using c Z by (simp add: dec_not_ws)
  have 2: "c \<noteq> CHR ''-''" "c \<noteq> CHR ''+''" using c dec_not_special by auto
  have 4: "takeWhile (isRadixDigit 10) Z = Z"
    using assms(2) by (simp add: isRadixDigit_def)
  have 5: "takeWhile (isRadixDigit 10) (c # cs) = c # cs" using 4 Z by simp
  show ?thesis unfolding parseInt_def 1 unfolding Z using 2 5 by (simp add: Let_def)
qed

lemma pagesPerChunk_toString: "1 \<le> n \<Longrightarrow> pagesPerChunk (Some (toString n)) = n"
  using parseInt_decimal10 [of "digits (nat n)"]
  by (simp add: pagesPerChunk_def toString_nonneg digits_nonempty digits_dec digitsValue_digits)

lemma copyPages_upto:
  "0 \<le> i \<Longrightarrow> e \<le> int (length pdfDoc) \<Longrightarrow>
   copyPages pdfDoc [i .. e - 1] = Inr (map (\<lambda>j. pdfDoc ! nat j) [i .. e - 1])"
  by (simp add: copyPages_def list_all_iff)

lemma chunkLoop_groups:
  "0 \<le> i \<Longrightarrow> 0 < perChunk \<Longrightarrow>
   chunkLoop pdfDoc perChunk i splitPdfs =
     Some (Inr (splitPdfs @ map (\<lambda>g. \<lparr>blob = map (\<lambda>j. pdfDoc ! nat j) g,
                 name = ''pages_'' @ toString (hd g + 1) @ ''-'' @ toString (last g + 1) @ ''.pdf''\<rparr>)
              (chunkGroups perChunk i (int (length pdfDoc)))))"
proof (induction perChunk i "int (length pdfDoc)" arbitrary: splitPdfs rule: chunkGroups.induct)
  case (1 perChunk i)
  show ?case
  proof (cases "i < int (length pdfDoc)")
    case False
    then show ?thesis
      by (subst chunkLoop.simps, subst chunkGroups.simps) simp
  next
    case True
    let ?e = "min (i + perChunk) (int (length pdfDoc))"
    have le: "i \<le> ?e - 1" using True 1(3) by simp
    have hd: "hd [i .. ?e - 1] = i" using le by (simp add: upto.simps)
    have last: "last [i .. ?e - 1] = ?e - 1" using le by (simp add: upto_rec2)
    have cp: "copyPages pdfDoc [i .. ?e - 1] = Inr (map (\<lambda>j. pdfDoc ! nat j) [i .. ?e - 1])"
      using 1(2) by (intro copyPages_upto) simp_all
    have sv: "save (map (\<lambda>j. pdfDoc ! nat j) [i .. ?e - 1]) = map (\<lambda>j. pdfDoc ! nat j) [i .. ?e - 1]"
    proof (rule save_nonempty)
      have "\<not> ?e - 1 < i" using le by linarith
      then show "map (\<lambda>j. pdfDoc ! nat j) [i .. ?e - 1] \<noteq> []" by simp
    qed
    have IH: "chunkLoop pdfDoc perChunk (i + perChunk) acc =
       Some (Inr (acc @ map (\<lambda>g. \<lparr>blob = map (\<lambda>j. pdfDoc ! nat j) g,
                 name = ''pages_'' @ toString (hd g + 1) @ ''-'' @ toString (last g + 1) @ ''.pdf''\<rparr>)
              (chunkGroups perChunk (i + perChunk) (int (length pdfDoc)))))" for acc
      using 1(1) [of acc] True 1(2,3) by simp
    show ?thesis
      apply (subst chunkLoop.simps)
      apply (subst chunkGroups.simps)
      using True 1(3) apply (simp only: if_True Let_def cp sum.case IH simp_thms)
      apply (simp add: hd last sv)
      done
  qed
qed

lemma concat_chunkGroups:
  "0 < perChunk \<Longrightarrow> concat (chunkGroups perChunk i n) = [i .. n - 1]"
proof (induction perChunk i n rule: chunkGroups.induct)
  case (1 perChunk i n)
  show ?case
  proof (cases "i < n")
    case False
    then show ?thesis by (subst chunkGroups.simps) simp
  next
    case True
    let ?e = "min (i + perChunk) n"
    have "[i .. n - 1] = [i .. ?e - 1] @ [?e - 1 + 1 .. n - 1]"
      using True 1(2) by (intro upto_split2) simp_all
    moreover have "concat (chunkGroups perChunk (i + perChunk) n) = [i + perChunk .. n - 1]"
      using 1 True by simp
    moreover have "[?e .. n - 1] = [i + perChunk .. n - 1]"
      by (cases "i + perChunk \<le> n") (simp_all add: min_def)
    ultimately show ?thesis using True 1(2) by (subst chunkGroups.simps) simp
  qed
qed

lemma chunkGroups_Nil: "chunkGroups perChunk i n = [] \<longleftrightarrow> \<not> (i < n \<and> 0 < perChunk)"
  by (subst chunkGroups.simps) simp

lemma butlast_chunkGroups:
  "g \<in> set (butlast (chunkGroups perChunk i n)) \<Longrightarrow> int (length g) = perChunk"
proof (induction perChunk i n rule: chunkGroups.induct)
  case (1 perChunk i n)
  show ?case
  proof (cases "i < n \<and> 0 < perChunk")
    case False
    then have "chunkGroups perChunk i n = []" by (simp add: chunkGroups_Nil)
    then show ?thesis using 1(2) by simp
  next
    case True
    have cg: "chunkGroups perChunk i n
        = [i .. min (i + perChunk) n - 1] # chunkGroups perChunk (i + perChunk) n"
      using True by (subst chunkGroups.simps) simp
    show ?thesis
    proof (cases "i + perChunk < n")
      case False
      then have "chunkGroups perChunk (i + perChunk) n = []" by (simp add: chunkGroups_Nil)
      then show ?thesis using 1(2) by (simp add: cg)
    next
      case less: True
      then have ne: "chunkGroups perChunk (i + perChunk) n \<noteq> []" using True by (simp add: chunkGroups_Nil)
      from 1(2) have "g = [i .. min (i + perChunk) n - 1] \<or> g \<in> set (butlast (chunkGroups perChunk (i + perChunk) n))"
        using ne by (simp add: cg)
      then show ?thesis
      proof
        assume "g = [i .. min (i + perChunk) n - 1]"
        then show ?thesis using less True by (simp add: min_def)
      next
        assume "g \<in> set (butlast (chunkGroups perChunk (i + perChunk) n))"
        then show ?thesis using 1(1) True by simp
      qed
    qed
  qed
qed

lemma last_chunkGroups:
  "i < n \<Longrightarrow> 0 < perChunk \<Longrightarrow>
   int (length (last (chunkGroups perChunk i n)))
     = (if (n - i) mod perChunk = 0 then perChunk else (n - i) mod perChunk)"
proof (induction perChunk i n rule: chunkGroups.induct)
  case (1 perChunk i n)
  show ?case
  proof (cases "i + perChunk < n")
    case False
    then have nil: "chunkGroups perChunk (i + perChunk) n = []" by (simp add: chunkGroups_Nil)
    have len: "int (length (last (chunkGroups perChunk i n))) = n - i"
      using 1(2,3) False nil by (subst chunkGroups.simps) (simp add: min_def)
    show ?thesis
    proof (cases "n - i = perChunk")
      case True
      then show ?thesis using len by simp
    next
      case False
      then have "n - i < perChunk" using \<open>\<not> i + perChunk < n\<close> by simp
      then have "(n - i) mod perChunk = n - i" using 1(2) by simp
      then show ?thesis using len 1(2) by simp
    qed
  next
    case True
    then have ne: "chunkGroups perChunk (i + perChunk) n \<noteq> []" using 1(3) by (simp add: chunkGroups_Nil)
    have "last (chunkGroups perChunk i n) = last (chunkGroups perChunk (i + perChunk) n)"
      using 1(2,3) ne by (subst chunkGroups.simps) simp
    moreover have "(n - (i + perChunk)) mod perChunk = (n - i) mod perChunk"
      by (metis diff_diff_eq mod_diff_right_eq mod_self diff_zero)
    ultimately show ?thesis using 1(1) 1(2,3) True by simp
  qed
qed

lemma chunkGroups_example: "chunkGroups 2 0 5 = [[0, 1], [2, 3], [4]]"
  by code_simp

lemma toString_digits_example:
  "toString 1 = ''1''" "toString 2 = ''2''" "toString 3 = ''3''" "toString 4 = ''4''"
  "toString 5 = ''5''"
  by code_simp+

lemma upto_example: "[0 .. 4] = [0, 1, 2, 3, 4 :: int]"
  by code_simp

text \<open>
  Claim C3. For a document of at least one page and a chunk size of at least 1, given
  as its decimal text, the split by chunks terminates and succeeds; its outputs are, in
  order, the pages of the index groups of the loop, each named
  \<open>pages_{start}-{end}.pdf\<close> after the 1-based numbers of the first and the last page
  of its group. The groups concatenated are the indices \<open>0 .. pageCount - 1\<close> in order,
  so they partition them into contiguous runs; every group but the last has \<open>size\<close>
  indices, and the last has \<open>pageCount mod size\<close>, or \<open>size\<close> when that is 0.
\<close>

theorem splitWithPDFLib_fixed_chunks:
  assumes "1 \<le> chunk" and "pdfDoc \<noteq> []"
  shows "splitWithPDFLib pdfDoc ''pages'' (Some (toString chunk))
           = Some (Inr (map (\<lambda>g. \<lparr>blob = map (\<lambda>j. pdfDoc ! nat j) g,
                 name = ''pages_'' @ toString (hd g + 1) @ ''-'' @ toString (last g + 1) @ ''.pdf''\<rparr>)
               (chunkGroups chunk 0 (int (length pdfDoc)))))
       \<and> concat (chunkGroups chunk 0 (int (length pdfDoc))) = [0 .. int (length pdfDoc) - 1]
       \<and> (\<forall>g \<in> set (butlast (chunkGroups chunk 0 (int (length pdfDoc)))). int (length g) = chunk)
       \<and> chunkGroups chunk 0 (int (length pdfDoc)) \<noteq> []
       \<and> int (length (last (chunkGroups chunk 0 (int (length pdfDoc)))))
           = (if int (length pdfDoc) mod chunk = 0 then chunk else int (length pdfDoc) mod chunk)"
proof -
  let ?n = "int (length pdfDoc)"
  have pos: "0 < chunk" using assms(1) by simp
  have n: "0 < ?n" using assms(2) by simp
  have 1: "splitWithPDFLib pdfDoc ''pages'' (Some (toString chunk))
           = Some (Inr (map (\<lambda>g. \<lparr>blob = map (\<lambda>j. pdfDoc ! nat j) g,
                 name = ''pages_'' @ toString (hd g + 1) @ ''-'' @ toString (last g + 1) @ ''.pdf''\<rparr>)
               (chunkGroups chunk 0 ?n)))"
    using chunkLoop_groups [of 0 chunk pdfDoc "[]"] pos
    by (simp add: splitWithPDFLib_def pagesPerChunk_toString [OF assms(1)])
  have 2: "concat (chunkGroups chunk 0 ?n) = [0 .. ?n - 1]"
    by (rule concat_chunkGroups [OF pos])
  have 3: "\<forall>g \<in> set (butlast (chunkGroups chunk 0 ?n)). int (length g) = chunk"
    using butlast_chunkGroups by blast
  have 4: "chunkGroups chunk 0 ?n \<noteq> []" using pos n by (simp add: chunkGroups_Nil)
  have 5: "int (length (last (chunkGroups chunk 0 ?n))) = (if ?n mod chunk = 0 then chunk else ?n mod chunk)"
    using last_chunkGroups [OF n pos] by simp
  show ?thesis using 1 2 3 4 5 by blast
qed

theorem splitWithPDFLib_fixed_chunks_witness:
  "splitWithPDFLib
     [\<lparr>mediaBox = \<lparr>box_x = 0, box_y = 0, box_width = 600, box_height = 800\<rparr>, rotation = 0, content = [''p1'']\<rparr>,
      \<lparr>mediaBox = \<lparr>box_x = 0, box_y = 0, box_width = 600, box_height = 800\<rparr>, rotation = 0, content = [''p2'']\<rparr>,
      \<lparr>mediaBox = \<lparr>box_x = 0, box_y = 0, box_width = 600, box_height = 800\<rparr>, rotation = 0, content = [''p3'']\<rparr>,
      \<lparr>mediaBox = \<lparr>box_x = 0, box_y = 0, box_width = 600, box_height = 800\<rparr>, rotation = 0, content = [''p4'']\<rparr>,
      \<lparr>mediaBox = \<lparr>box_x = 0, box_y = 0, box_width = 600, box_height = 800\<rparr>, rotation = 0, content = [''p5'']\<rparr>]
     ''pages'' (Some ''2'')
   = Some (Inr
     [\<lparr>blob =
         [\<lparr>mediaBox = \<lparr>box_x = 0, box_y = 0, box_width = 600, box_height = 800\<rparr>, rotation = 0, content = [''p1'']\<rparr>,
          \<lparr>mediaBox = \<lparr>box_x = 0, box_y = 0, box_width = 600, box_height = 800\<rparr>, rotation = 0, content = [''p2'']\<rparr>],
       name = ''pages_1-2.pdf''\<rparr>,
      \<lparr>blob =
         [\<lparr>mediaBox = \<lparr>box_x = 0, box_y = 0, box_width = 600, box_height = 800\<rparr>, rotation = 0, content = [''p3'']\<rparr>,
          \<lparr>mediaBox = \<lparr>box_x = 0, box_y = 0, box_width = 600, box_height = 800\<rparr>, rotation = 0, content = [''p4'']\<rparr>],
       name = ''pages_3-4.pdf''\<rparr>,
      \<lparr>blob =
         [\<lparr>mediaBox = \<lparr>box_x = 0, box_y = 0, box_width = 600, box_height = 800\<rparr>, rotation = 0, content = [''p5'']\<rparr>],
       name = ''pages_5-5.pdf''\<rparr>])
   \<and> concat [[0, 1], [2, 3], [4 :: int]] = [0 .. 5 - 1]
   \<and> list_all (\<lambda>g. int (length g) = 2) (butlast [[0, 1], [2, 3], [4 :: int]])
   \<and> int (length (last [[0, 1], [2, 3], [4 :: int]])) = 5 mod 2"
proof -
  show ?thesis
    using splitWithPDFLib_fixed_chunks [of 2
      "[\<lparr>mediaBox = \<lparr>box_x = 0, box_y = 0, box_width = 600, box_height = 800\<rparr>, rotation = 0, content = [''p1'']\<rparr>,
      \<lparr>mediaBox = \<lparr>box_x = 0, box_y = 0, box_width = 600, box_height = 800\<rparr>, rotation = 0, content = [''p2'']\<rparr>,
      \<lparr>mediaBox = \<lparr>box_x = 0, box_y = 0, box_width = 600, box_height = 800\<rparr>, rotation = 0, content = [''p3'']\<rparr>,
      \<lparr>mediaBox = \<lparr>box_x = 0, box_y = 0, box_width = 600, box_height = 800\<rparr>, rotation = 0, content = [''p4'']\<rparr>,
      \<lparr>mediaBox = \<lparr>box_x = 0, box_y = 0, box_width = 600, box_height = 800\<rparr>, rotation = 0, content = [''p5'']\<rparr>]"]
    by (simp add: toString_digits_example chunkGroups_example upto_example)
qed

text \<open>
  Claim C6, as amended. The claim asks that a range expression that parses to no range
  makes the split fail with EmptyRangeSet. The code has no such failure: for every
  document and every expression that is not empty and parses to no range, the split
  by ranges returns normally, with no output document.
\<close>

theorem splitWithPDFLib_empty_ranges:
  assumes "r \<noteq> []" and "parseRanges r (int (length pdfDoc)) = Inr []"
  shows "splitWithPDFLib pdfDoc ''range'' (Some r) = Some (Inr [])"
  using assms by (simp add: splitWithPDFLib_def)

theorem splitWithPDFLib_empty_ranges_witness:
  "splitWithPDFLib
     [\<lparr>mediaBox = \<lparr>box_x = 0, box_y = 0, box_width = 600, box_height = 800\<rparr>, rotation = 0, content = [''p1'']\<rparr>,
      \<lparr>mediaBox = \<lparr>box_x = 0, box_y = 0, box_width = 600, box_height = 800\<rparr>, rotation = 0, content = [''p2'']\<rparr>]
     ''range'' (Some ''7-9,x'') = Some (Inr [])"
proof -
  have "parseRanges ''7-9,x'' 2 = Inr []" by code_simp
  then show ?thesis
    using splitWithPDFLib_empty_ranges
      [of "''7-9,x''"
          "[\<lparr>mediaBox = \<lparr>box_x = 0, box_y = 0, box_width = 600, box_height = 800\<rparr>, rotation = 0, content = [''p1'']\<rparr>,
            \<lparr>mediaBox = \<lparr>box_x = 0, box_y = 0, box_width = 600, box_height = 800\<rparr>, rotation = 0, content = [''p2'']\<rparr>]"]
    by simp
qed

text \<open>
  The claim C6 as it is written fails on a document of three pages split by the
  expression \<open>3-1\<close>: the expression parses to no range and the split succeeds with no
  output.
\<close>

theorem splitWithPDFLib_empty_ranges_counterexample:
  "splitWithPDFLib
     [\<lparr>mediaBox = \<lparr>box_x = 0, box_y = 0, box_width = 600, box_height = 800\<rparr>, rotation = 0, content = [''p1'']\<rparr>,
      \<lparr>mediaBox = \<lparr>box_x = 0, box_y = 0, box_width = 600, box_height = 800\<rparr>, rotation = 0, content = [''p2'']\<rparr>,
      \<lparr>mediaBox = \<lparr>box_x = 0, box_y = 0, box_width = 600, box_height = 800\<rparr>, rotation = 0, content = [''p3'']\<rparr>]
     ''range'' (Some ''3-1'') = Some (Inr [])"
proof -
  have "parseRanges ''3-1'' 3 = Inr []" by code_simp
  then show ?thesis by (simp add: splitWithPDFLib_def)
qed

section \<open>Properties of the table extraction\<close>

lemma splitOn_append_sep:
  "splitOn d cur (a @ d # b) = splitOn d cur a @ splitOn d [] b"
  by (induction a arbitrary: cur) simp_all

lemma split_join_concat:
  "items \<noteq> [] \<Longrightarrow> split d (join d items) = concat (map (split d) items)"
proof (induction d items rule: join.induct)
  case (1 d)
  then show ?case by simp
next
  case (2 d s)
  then show ?case by simp
next
  case (3 d s t ts)
  then show ?case by (simp add: split_def splitOn_append_sep)
qed

lemma spec_runs_Nil: "spec_runs s = [] \<longleftrightarrow> s = []"
  by (cases s) (simp_all split: list.split)

lemma spec_runs_hd:
  "spec_runs (c # cs) = r # rs \<Longrightarrow> r \<noteq> [] \<and> hd r = c"
  by (auto split: list.splits if_splits)

lemma tab_ws: "isWhiteSpace CHR 0x09"
  by (simp add: isWhiteSpace_def)

lemma spec_runs_ws_prefix:
  assumes "w \<noteq> []" and "list_all isWhiteSpace w" and "rest = [] \<or> \<not> isWhiteSpace (hd rest)"
  shows "spec_runs (w @ rest) = w # spec_runs rest"
  using assms
proof (induction w)
  case Nil
  then show ?case by simp
next
  case (Cons c w)
  show ?case
  proof (cases w)
    case Nil
    show ?thesis
    proof (cases rest)
      case Nil
      then show ?thesis using \<open>w = []\<close> by simp
    next
      case (Cons d ds)
      then obtain r rs where rr: "spec_runs (d # ds) = r # rs"
        using spec_runs_Nil [of "d # ds"] by (cases "spec_runs (d # ds)") auto
      then have "hd r = d" using spec_runs_hd by blast
      then show ?thesis using Cons.prems Cons rr \<open>w = []\<close> by simp
    qed
  next
    case (Cons c' w')
    then have "spec_runs (w @ rest) = w # spec_runs rest"
      using Cons.IH Cons.prems by simp
    then show ?thesis using Cons Cons.prems by simp
  qed
qed

lemma spec_cells_nonws:
  assumes "\<not> isWhiteSpace c"
  shows "spec_cells cur (spec_runs (c # cs)) = spec_cells (cur @ [c]) (spec_runs cs)"
proof (cases "spec_runs cs")
  case Nil
  then show ?thesis using assms tab_ws by (auto simp: spec_isSeparator_def)
next
  case (Cons r rs)
  then have cs: "cs \<noteq> []" using spec_runs_Nil [of cs] by auto
  then obtain d ds where "cs = d # ds" by (cases cs) auto
  then have r: "r \<noteq> []" "hd r = d" using Cons spec_runs_hd by blast+
  show ?thesis
  proof (cases "isWhiteSpace d")
    case True
    then show ?thesis using assms Cons r tab_ws by (auto simp: spec_isSeparator_def)
  next
    case False
    then have "\<not> spec_isSeparator r" using r tab_ws
      by (cases r) (auto simp: spec_isSeparator_def)
    moreover have "\<not> spec_isSeparator (c # r)" using assms tab_ws
      by (auto simp: spec_isSeparator_def)
    ultimately show ?thesis using assms Cons r False by simp
  qed
qed

lemma matchSeparator_zero_cases:
  assumes "matchSeparator (c # cs) = 0"
  shows "\<not> isWhiteSpace c \<or> (isWhiteSpace c \<and> c \<noteq> CHR 0x09 \<and> (cs = [] \<or> \<not> isWhiteSpace (hd cs)))"
proof (cases "isWhiteSpace c")
  case False
  then show ?thesis by simp
next
  case True
  have tab: "c \<noteq> CHR 0x09" using assms True
    by (auto simp: matchSeparator_def Let_def split: if_splits)
  have "cs = [] \<or> \<not> isWhiteSpace (hd cs)"
  proof (cases cs)
    case Nil
    then show ?thesis by simp
  next
    case (Cons d ds)
    then show ?thesis using assms True
      by (auto simp: matchSeparator_def Let_def split: if_splits)
  qed
  then show ?thesis using True tab by simp
qed

lemma matchSeparator_pos:
  assumes "matchSeparator s \<noteq> 0"
  shows "takeWhile isWhiteSpace s \<noteq> [] \<and> matchSeparator s = length (takeWhile isWhiteSpace s)
         \<and> spec_isSeparator (takeWhile isWhiteSpace s)"
proof (cases "2 \<le> length (takeWhile isWhiteSpace s)")
  case True
  then have "list_all isWhiteSpace (takeWhile isWhiteSpace s)"
    by (simp add: list_all_iff) (meson set_takeWhileD)
  then show ?thesis using True by (auto simp: matchSeparator_def spec_isSeparator_def)
next
  case False
  with assms have t: "take 1 s = [CHR 0x09]" and m: "matchSeparator s = 1"
    by (auto simp: matchSeparator_def Let_def split: if_splits)
  then obtain cs where s: "s = CHR 0x09 # cs" by (cases s) auto
  have "takeWhile isWhiteSpace cs = []"
    using False s tab_ws by (cases "takeWhile isWhiteSpace cs") simp_all
  then have "takeWhile isWhiteSpace s = [CHR 0x09]" using s tab_ws by simp
  then show ?thesis using m by (simp add: spec_isSeparator_def)
qed

lemma dropWhile_hd: "dropWhile P s = [] \<or> \<not> P (hd (dropWhile P s))"
  using hd_dropWhile by blast

lemma splitCells_spec: "splitCells cur s = spec_cells cur (spec_runs s)"
proof (induction cur s rule: splitCells.induct)
  case (1 cur)
  then show ?case by simp
next
  case (2 cur c cs)
  show ?case
  proof (cases "matchSeparator (c # cs) = 0")
    case True
    then have IH: "splitCells (cur @ [c]) cs = spec_cells (cur @ [c]) (spec_runs cs)"
      using 2(1) by simp
    from matchSeparator_zero_cases [OF True] show ?thesis
    proof
      assume "\<not> isWhiteSpace c"
      then show ?thesis using True IH by (simp add: spec_cells_nonws del: spec_runs.simps)
    next
      assume a: "isWhiteSpace c \<and> c \<noteq> CHR 0x09 \<and> (cs = [] \<or> \<not> isWhiteSpace (hd cs))"
      then have "spec_runs ([c] @ cs) = [c] # spec_runs cs"
        by (intro spec_runs_ws_prefix) simp_all
      moreover have "\<not> spec_isSeparator [c]" using a by (simp add: spec_isSeparator_def)
      ultimately show ?thesis using True IH by (simp del: spec_runs.simps)
    qed
  next
    case False
    let ?w = "takeWhile isWhiteSpace (c # cs)" and ?rest = "dropWhile isWhiteSpace (c # cs)"
    from matchSeparator_pos [OF False]
    have w: "?w \<noteq> []" and m: "matchSeparator (c # cs) = length ?w" and sep: "spec_isSeparator ?w"
      by simp_all
    have d: "drop (matchSeparator (c # cs)) (c # cs) = ?rest"
      unfolding m by (rule dropWhile_eq_drop [symmetric])
    have IH: "splitCells [] ?rest = spec_cells [] (spec_runs ?rest)"
      using 2(2) False d by simp
    have "list_all isWhiteSpace ?w" by (simp add: list_all_iff) (meson set_takeWhileD)
    then have "spec_runs (?w @ ?rest) = ?w # spec_runs ?rest"
      using w dropWhile_hd [of isWhiteSpace "c # cs"] by (intro spec_runs_ws_prefix) simp_all
    then have r: "spec_runs (c # cs) = ?w # spec_runs ?rest" by (simp only: takeWhile_dropWhile_id)
    have "splitCells cur (c # cs) = cur # splitCells [] ?rest"
      using False d by simp
    then show ?thesis using IH sep by (simp only: r spec_cells.simps if_True)
  qed
qed

lemma rowOfLine_spec: "rowOfLine line = spec_row line"
  by (simp add: rowOfLine_def spec_row_def splitCells_spec)

lemma lineLoop_filter:
  "lineLoop allRows lines = allRows @ filter (\<lambda>row. 2 \<le> length row) (map spec_row lines)"
proof (induction lines arbitrary: allRows)
  case Nil
  then show ?case by (simp add: lineLoop_def)
next
  case (Cons line lines)
  have "lineLoop allRows (line # lines)
        = lineLoop (if 1 < length (spec_row line) then allRows @ [spec_row line] else allRows) lines"
    by (simp add: lineLoop_def Let_def rowOfLine_spec)
  then show ?case using Cons.IH by (simp add: Suc_le_eq)
qed

lemma spec_row_Nil: "spec_row [] = []"
  by (simp add: spec_row_def trim_def)

lemma page_lines:
  "filter (\<lambda>row. 2 \<le> length row) (map spec_row (split CHR 0x0A (join CHR 0x0A items)))
   = filter (\<lambda>row. 2 \<le> length row) (map spec_row (concat (map (split CHR 0x0A) items)))"
proof (cases "items = []")
  case True
  then show ?thesis by (simp add: split_def spec_row_Nil)
next
  case False
  then show ?thesis by (simp add: split_join_concat)
qed

lemma pageLoop_rows:
  "pageLoop allRows pagesText = allRows @ spec_rows pagesText"
proof (induction pagesText arbitrary: allRows)
  case Nil
  then show ?case by (simp add: pageLoop_def spec_rows_def spec_lines_def)
next
  case (Cons items pagesText)
  have "pageLoop allRows (items # pagesText)
        = pageLoop (lineLoop allRows (split CHR 0x0A (join CHR 0x0A items))) pagesText"
    by (simp add: pageLoop_def)
  also have "\<dots> = lineLoop allRows (split CHR 0x0A (join CHR 0x0A items)) @ spec_rows pagesText"
    by (rule Cons.IH)
  also have "\<dots> = allRows @ spec_rows (items # pagesText)"
    by (simp add: lineLoop_filter page_lines spec_rows_def spec_lines_def)
  finally show ?case .
qed

text \<open>
  Claim C8. On the text items of the pages of a document, the table extraction returns
  exactly the rows of the specification: every text line is split at its separators (a
  run of at least two white space characters, or a tab), the cells are trimmed, empty
  cells are discarded, and the lines with at least two cells are kept, in order. It
  fails, with the error of no table detected, exactly when no such row exists.
\<close>

theorem extractTableFromPdf_rows:
  "extractTableFromPdf pagesText
     = (if spec_rows pagesText = []
        then Inl (Failed ''Table extraction failed: '' NoTablesDetected)
        else Inr (spec_rows pagesText))
   \<and> (isl (extractTableFromPdf pagesText) \<longleftrightarrow> spec_rows pagesText = [])"
proof -
  have "pageLoop [] pagesText = spec_rows pagesText"
    using pageLoop_rows [of "[]" pagesText] by simp
  then show ?thesis by (simp add: extractTableFromPdf_def)
qed

theorem extractTableFromPdf_rows_witness:
  "extractTableFromPdf
     [[''Name   Age'', ''Bob'' @ [CHR 0x09] @ ''42  y'', ''just one cell'', '' a  b ''], [], [''   '']]
     = Inr [[''Name'', ''Age''], [''Bob'', ''42'', ''y''], [''a'', ''b'']]
   \<and> extractTableFromPdf [[''just one cell'']]
     = Inl (Failed ''Table extraction failed: '' NoTablesDetected)"
proof -
  have 1: "spec_rows
     [[''Name   Age'', ''Bob'' @ [CHR 0x09] @ ''42  y'', ''just one cell'', '' a  b ''], [], [''   '']]
     = [[''Name'', ''Age''], [''Bob'', ''42'', ''y''], [''a'', ''b'']]"
    by code_simp
  have 2: "spec_rows [[''just one cell'']] = []"
    by code_simp
  show ?thesis
    using extractTableFromPdf_rows
        [of "[[''Name   Age'', ''Bob'' @ [CHR 0x09] @ ''42  y'', ''just one cell'', '' a  b ''], [], [''   '']]"]
      extractTableFromPdf_rows [of "[[''just one cell'']]"]
    by (simp only: 1 2) simp
qed

end
